theory Spec2Isabelle
  imports Complex_Main "HOL-Library.Finite_Map" "HOL-Library.Sublist"
begin

section \<open>Paths, names and extensions\<close>

text \<open>
  A path is the list of its components, as \<^verbatim>\<open>pathlib\<close> keeps them; \<^verbatim>\<open>d / name\<close> appends one
  component. Names are ASCII strings without a separator. \<^verbatim>\<open>str(p)\<close> joins the components
  with a slash.
\<close>

type_synonym path = "string list"

definition joinpath :: "path \<Rightarrow> string \<Rightarrow> path" where
  "joinpath d n = d @ [n]"

fun str_path :: "path \<Rightarrow> string" where
  "str_path [] = ''.''"
| "str_path [a] = a"
| "str_path (a # b # r) = a @ ''/'' @ str_path (b # r)"

text \<open>\<^verbatim>\<open>p.parents\<close>: the proper ancestors of \<open>p\<close>, nearest first.\<close>

definition parents :: "path \<Rightarrow> path list" where
  "parents p = rev (butlast (prefixes p))"

text \<open>\<^verbatim>\<open>str.lower\<close> on ASCII.\<close>

definition lower_char :: "char \<Rightarrow> char" where
  "lower_char c =
     (case map_of (zip ''ABCDEFGHIJKLMNOPQRSTUVWXYZ'' ''abcdefghijklmnopqrstuvwxyz'') c of
        Some d \<Rightarrow> d
      | None \<Rightarrow> c)"

definition lower :: "string \<Rightarrow> string" where
  "lower s = map lower_char s"

text \<open>\<^verbatim>\<open>name.rfind(c)\<close>: the index of the last occurrence, \<open>None\<close> for Python's \<open>-1\<close>.\<close>

primrec rfind :: "char \<Rightarrow> string \<Rightarrow> nat option" where
  "rfind c [] = None"
| "rfind c (x # xs) =
     (case rfind c xs of
        Some i \<Rightarrow> Some (Suc i)
      | None \<Rightarrow> if x = c then Some 0 else None)"

text \<open>
  \<^verbatim>\<open>PurePath.suffix\<close>, \<^verbatim>\<open>PurePath.stem\<close> and \<^verbatim>\<open>with_suffix(s).name\<close> of a file name: the suffix
  starts at the last dot when that dot is neither the first nor the last character.
\<close>

definition suffix_of :: "string \<Rightarrow> string" where
  "suffix_of name =
     (case rfind (CHR ''.'') name of
        Some i \<Rightarrow> if 0 < i \<and> i < length name - 1 then drop i name else []
      | None \<Rightarrow> [])"

definition stem_of :: "string \<Rightarrow> string" where
  "stem_of name =
     (case rfind (CHR ''.'') name of
        Some i \<Rightarrow> if 0 < i \<and> i < length name - 1 then take i name else name
      | None \<Rightarrow> name)"

definition with_suffix_name :: "string \<Rightarrow> string \<Rightarrow> string" where
  "with_suffix_name name s =
     (if suffix_of name = [] then name @ s
      else take (length name - length (suffix_of name)) name @ s)"

text \<open>The decimal numeral an f-string prints for a counter.\<close>

definition digit_char :: "nat \<Rightarrow> char" where
  "digit_char n = ''0123456789'' ! n"

function str_nat :: "nat \<Rightarrow> string" where
  "str_nat n = (if n < 10 then [digit_char n] else str_nat (n div 10) @ [digit_char (n mod 10)])"
  by pat_completeness auto
termination
  by (relation "measure id") auto

text \<open>The directories, relative to the directory of the script.\<close>

definition SOURCE_DIR :: "path \<Rightarrow> path" where
  "SOURCE_DIR script_dir = joinpath script_dir ''unsorted_photos''"

definition DEST_DIR :: "path \<Rightarrow> path" where
  "DEST_DIR script_dir = joinpath script_dir ''sorted_photos''"

definition NO_DATE_DIR :: "path \<Rightarrow> path" where
  "NO_DATE_DIR script_dir = joinpath (DEST_DIR script_dir) ''no_date''"

definition ARCHIVES_DIR :: "path \<Rightarrow> path" where
  "ARCHIVES_DIR script_dir = joinpath (DEST_DIR script_dir) ''archives''"

definition ERROR_DIR :: "path \<Rightarrow> path" where
  "ERROR_DIR script_dir = joinpath (DEST_DIR script_dir) ''errors''"

definition IMAGE_EXTENSIONS :: "string set" where
  "IMAGE_EXTENSIONS =
     {''.jpg'', ''.jpeg'', ''.png'', ''.gif'', ''.tiff'', ''.bmp'', ''.heic'', ''.heif''}"

definition VIDEO_EXTENSIONS :: "string set" where
  "VIDEO_EXTENSIONS =
     {''.mp4'', ''.avi'', ''.mov'', ''.wmv'', ''.mkv'', ''.flv'', ''.mpeg'', ''.mpg'', ''.m4v''}"

definition HEIC_EXTENSIONS :: "string set" where
  "HEIC_EXTENSIONS = {''.heic'', ''.heif''}"

definition ARCHIVE_EXTENSIONS :: "string set" where
  "ARCHIVE_EXTENSIONS =
     {''.zip'', ''.rar'', ''.7z'', ''.tar'', ''.gz'', ''.bz2'', ''.xz'',
      ''.tar.gz'', ''.tar.bz2'', ''.tar.xz''}"

section \<open>Exceptions, events and the file system\<close>

text \<open>
  The exception classes the handlers tell apart. \<open>OSError\<close> stands for an \<^verbatim>\<open>OSError\<close> that
  is none of its three named subclasses, \<open>OtherException\<close> for an \<^verbatim>\<open>Exception\<close> outside
  \<^verbatim>\<open>OSError\<close>. Pillow's \<^verbatim>\<open>UnidentifiedImageError\<close> is a subclass of \<^verbatim>\<open>OSError\<close>.
\<close>

datatype exn = FileNotFoundError | PermissionError | UnidentifiedImageError | OSError | OtherException

definition is_OSError :: "exn \<Rightarrow> bool" where
  "is_OSError e = (e \<noteq> OtherException)"

text \<open>
  What a call leaves behind besides its result: a record written to the log (its level
  only), and the opening and closing of a decoder handle.
\<close>

datatype log_level = INFO | WARNING | ERROR

datatype event = ImgOpen | ImgClose | Log log_level

text \<open>
  A file on disk: the SHA-256 digest of its bytes, and whether its bytes can be read.
  The file system maps the paths of regular files to their entries.
\<close>

record file_entry =
  digest :: string
  readable :: bool

type_synonym filesystem = "(path, file_entry) fmap"

section \<open>get\_file\_size\_category\<close>

text \<open>
  The argument is what \<^verbatim>\<open>file_path.stat().st_size\<close> gives: a size in bytes, or the exception
  it raises. \<^verbatim>\<open>size_bytes / (1024 * 1024)\<close> is a float division by a power of two; it is exact
  for every size below \<open>2^53\<close>, rounds monotonically above, and the thresholds are floats,
  so the comparisons are those of the exact quotient.
\<close>

definition get_file_size_category :: "exn + nat \<Rightarrow> string \<times> event list" where
  "get_file_size_category st =
     (case st of
        Inr size_bytes \<Rightarrow>
          (let size_mb = (of_nat size_bytes :: rat) / (1024 * 1024) in
           if size_mb < 0.5 then (''tiny_under_0.5MB'', [])
           else if size_mb < 1 then (''small_0.5-1MB'', [])
           else if size_mb < 2 then (''medium_1-2MB'', [])
           else if size_mb < 5 then (''large_2-5MB'', [])
           else if size_mb < 10 then (''xlarge_5-10MB'', [])
           else (''huge_over_10MB'', []))
      | Inl e \<Rightarrow> (''unknown_size'', [Log WARNING]))"

section \<open>get\_date\_taken\<close>

text \<open>
  An EXIF value is a string or something else; the EXIF dictionary is a list of tag and
  value. The decoder's behaviour on one file: \<^verbatim>\<open>Image.open\<close> raises, or it returns a handle
  and \<^verbatim>\<open>img.load()\<close> raises, or \<^verbatim>\<open>img._getexif()\<close> raises, or \<^verbatim>\<open>_getexif\<close> returns a
  dictionary or \<^verbatim>\<open>None\<close>.
\<close>

datatype exif_value = ExifStr string | ExifOther

type_synonym exif = "(nat \<times> exif_value) list"

datatype decode_behaviour =
    OpenRaises exn
  | LoadRaises exn
  | GetexifRaises exn
  | Exif "exif option"

text \<open>
  The two nested tests on a tag value (lines 115-117 and 122-124): the value is true,
  is a string, has at least 10 characters, and has a colon at index 4 and at index 7;
  then the year is its first four characters.
\<close>

definition year_of_tag :: "exif_value option \<Rightarrow> string option" where
  "year_of_tag date_str =
     (case date_str of
        Some (ExifStr d) \<Rightarrow>
          if d \<noteq> [] \<and> length d \<ge> 10 then
            (if d ! 4 = CHR '':'' \<and> d ! 7 = CHR '':'' then Some (take 4 d) else None)
          else None
      | _ \<Rightarrow> None)"

text \<open>Truth value of a string or \<^verbatim>\<open>None\<close>.\<close>

definition truthy :: "string option \<Rightarrow> bool" where
  "truthy v = (case v of None \<Rightarrow> False | Some s \<Rightarrow> s \<noteq> [])"

text \<open>The three \<^verbatim>\<open>except\<close> clauses of \<^verbatim>\<open>get_date_taken\<close>, after the events so far.\<close>

definition date_handler :: "exn \<Rightarrow> event list \<Rightarrow> string option \<times> event list" where
  "date_handler e evs =
     (case e of
        FileNotFoundError \<Rightarrow> (Some ''error'', evs @ [Log WARNING])
      | UnidentifiedImageError \<Rightarrow> (None, evs @ [Log WARNING])
      | _ \<Rightarrow> (None, evs @ [Log ERROR]))"

definition get_date_taken :: "string \<Rightarrow> decode_behaviour \<Rightarrow> string option \<times> event list" where
  "get_date_taken file_ext beh =
     (if file_ext \<in> IMAGE_EXTENSIONS then
        (case beh of
           OpenRaises e \<Rightarrow> date_handler e []
         | LoadRaises e \<Rightarrow> date_handler e [ImgOpen]
         | GetexifRaises e \<Rightarrow> date_handler e [ImgOpen]
         | Exif exif_data \<Rightarrow>
             (let year =
                (case exif_data of
                   None \<Rightarrow> None
                 | Some ex \<Rightarrow>
                     if ex \<noteq> [] then
                       (let year = year_of_tag (map_of ex 36867) in
                        if \<not> truthy year then year_of_tag (map_of ex 306) else year)
                     else None)
              in if truthy year then (year, [ImgOpen, ImgClose])
                 else (None, [ImgOpen, ImgClose])))
      else (None, []))"

text \<open>Every handle that was opened has been closed.\<close>

definition handles_released :: "event list \<Rightarrow> bool" where
  "handles_released evs = (count_list evs ImgOpen = count_list evs ImgClose)"

section \<open>calculate\_hash\<close>

text \<open>
  The hex digest of the file, or \<^verbatim>\<open>None\<close> when the file cannot be opened or read; both
  \<^verbatim>\<open>except\<close> clauses log an error and return \<^verbatim>\<open>None\<close>.
\<close>

definition calculate_hash :: "filesystem \<Rightarrow> path \<Rightarrow> string option \<times> event list" where
  "calculate_hash fsys file_path =
     (case fmlookup fsys file_path of
        None \<Rightarrow> (None, [Log ERROR])
      | Some f \<Rightarrow> if readable f then (Some (digest f), []) else (None, [Log ERROR]))"

section \<open>The environment of one file and the state of a run\<close>

record env =
  decode :: decode_behaviour
  stat_size :: "exn + nat"
  mkdir_exn :: "path \<Rightarrow> exn option"
  exists_exn :: "path \<Rightarrow> exn option"
  remove_exn :: "exn option"
  move_exn :: "path \<Rightarrow> exn option"
  convert :: "exn + file_entry"

record run_state =
  moved_count :: nat
  video_moved_count :: nat
  heic_converted_count :: nat
  no_date_count :: nat
  archive_moved_count :: nat
  deleted_non_media_count :: nat
  error_count :: nat
  skipped_count :: nat
  duplicate_deleted_count :: nat
  hashes_in_destination :: "string \<rightharpoonup> string option set"
  fs :: filesystem
  trace :: "event list"

datatype media_type = media_unknown | media_image | media_video | media_archive | media_other

definition emit :: "event list \<Rightarrow> run_state \<Rightarrow> run_state" where
  "emit evs s = s\<lparr>trace := trace s @ evs\<rparr>"

lemma emit_fields [simp]:
  "moved_count (emit evs s) = moved_count s"
  "video_moved_count (emit evs s) = video_moved_count s"
  "heic_converted_count (emit evs s) = heic_converted_count s"
  "no_date_count (emit evs s) = no_date_count s"
  "archive_moved_count (emit evs s) = archive_moved_count s"
  "deleted_non_media_count (emit evs s) = deleted_non_media_count s"
  "error_count (emit evs s) = error_count s"
  "skipped_count (emit evs s) = skipped_count s"
  "duplicate_deleted_count (emit evs s) = duplicate_deleted_count s"
  "hashes_in_destination (emit evs s) = hashes_in_destination s"
  "fs (emit evs s) = fs s"
  "trace (emit evs s) = trace s @ evs"
  by (simp_all add: emit_def)

definition os_remove :: "env \<Rightarrow> filesystem \<Rightarrow> path \<Rightarrow> exn + filesystem" where
  "os_remove env fsys p =
     (case fmlookup fsys p of
        None \<Rightarrow> Inl FileNotFoundError
      | Some f \<Rightarrow> (case remove_exn env of Some e \<Rightarrow> Inl e | None \<Rightarrow> Inr (fmdrop p fsys)))"

definition shutil_move :: "env \<Rightarrow> filesystem \<Rightarrow> path \<Rightarrow> path \<Rightarrow> exn + filesystem" where
  "shutil_move env fsys src dst =
     (case fmlookup fsys src of
        None \<Rightarrow> Inl FileNotFoundError
      | Some f \<Rightarrow>
          (case move_exn env dst of
             Some e \<Rightarrow> Inl e
           | None \<Rightarrow> Inr (fmupd dst f (fmdrop src fsys))))"

definition path_exists :: "env \<Rightarrow> filesystem \<Rightarrow> path \<Rightarrow> exn + bool" where
  "path_exists env fsys p =
     (case exists_exn env p of Some e \<Rightarrow> Inl e | None \<Rightarrow> Inr (p \<in> fmdom' fsys))"

definition image_convert :: "env \<Rightarrow> filesystem \<Rightarrow> path \<Rightarrow> path \<Rightarrow> exn + filesystem" where
  "image_convert env fsys src dst =
     (case fmlookup fsys src of
        None \<Rightarrow> Inl FileNotFoundError
      | Some f \<Rightarrow>
          (case convert env of
             Inl e \<Rightarrow> Inl e
           | Inr jpeg \<Rightarrow> Inr (fmupd dst jpeg fsys)))"

definition new_name :: "string \<Rightarrow> nat \<Rightarrow> string \<Rightarrow> string" where
  "new_name stem counter ext = stem @ ''_'' @ str_nat counter @ ext"

datatype resolution = Raised exn | Matched path | Free path

text \<open>
  The loops below end because the file system is finite and the candidate names differ
  for different counters: a numeral can be read back.
\<close>

definition digit_val :: "char \<Rightarrow> nat" where
  "digit_val c = (case map_of (zip ''0123456789'' [0..<10]) c of Some d \<Rightarrow> d | None \<Rightarrow> 0)"

definition nat_of_str :: "string \<Rightarrow> nat" where
  "nat_of_str cs = foldl (\<lambda>a c. 10 * a + digit_val c) 0 cs"

lemma digit_val_digit_char: "d < 10 \<Longrightarrow> digit_val (digit_char d) = d"
proof -
  assume "d < 10"
  then have "d \<in> {0, 1, 2, 3, 4, 5, 6, 7, 8, 9}" by auto
  then show ?thesis
    by (auto simp: digit_val_def digit_char_def upt_rec)
qed

lemma nat_of_str_str_nat: "nat_of_str (str_nat n) = n"
proof (induction n rule: str_nat.induct)
  case (1 n)
  show ?case
  proof (cases "n < 10")
    case True
    then show ?thesis by (simp add: nat_of_str_def digit_val_digit_char)
  next
    case False
    with 1 have "nat_of_str (str_nat (n div 10)) = n div 10" by simp
    with False show ?thesis
      by (subst str_nat.simps) (simp add: nat_of_str_def digit_val_digit_char)
  qed
qed

lemma str_nat_inj: "str_nat m = str_nat n \<Longrightarrow> m = n"
  by (metis nat_of_str_str_nat)

lemma new_name_inj: "new_name stem m ext = new_name stem n ext \<Longrightarrow> m = n"
  by (simp add: new_name_def str_nat_inj)

definition later_names :: "filesystem \<Rightarrow> path \<Rightarrow> string \<Rightarrow> string \<Rightarrow> nat \<Rightarrow> nat set" where
  "later_names fsys d stem ext counter =
     {k. counter \<le> k \<and> joinpath d (new_name stem k ext) \<in> fmdom' fsys}"

lemma finite_later_names: "finite (later_names fsys d stem ext counter)"
proof -
  have "inj_on (\<lambda>k. joinpath d (new_name stem k ext)) (later_names fsys d stem ext counter)"
    by (auto simp: inj_on_def joinpath_def dest: new_name_inj)
  moreover have "(\<lambda>k. joinpath d (new_name stem k ext)) ` later_names fsys d stem ext counter
      \<subseteq> fmdom' fsys"
    by (auto simp: later_names_def)
  moreover have "finite (fmdom' fsys)" by simp
  ultimately show ?thesis
    by (meson finite_imageD finite_subset)
qed

definition loop_measure :: "filesystem \<Rightarrow> path \<Rightarrow> string \<Rightarrow> string \<Rightarrow> path \<Rightarrow> nat \<Rightarrow> nat" where
  "loop_measure fsys d stem ext dest counter =
     2 * card (later_names fsys d stem ext counter) + (if dest \<in> fmdom' fsys then 1 else 0)"

lemma loop_measure_decreases:
  assumes "dest \<in> fmdom' fsys"
  shows "loop_measure fsys d stem ext (joinpath d (new_name stem counter ext)) (counter + 1)
       < loop_measure fsys d stem ext dest counter"
proof (cases "joinpath d (new_name stem counter ext) \<in> fmdom' fsys")
  case True
  then have "later_names fsys d stem ext counter
      = insert counter (later_names fsys d stem ext (counter + 1))"
    by (auto simp: later_names_def le_Suc_eq)
  moreover have "counter \<notin> later_names fsys d stem ext (counter + 1)"
    by (simp add: later_names_def)
  ultimately have "card (later_names fsys d stem ext counter)
      = Suc (card (later_names fsys d stem ext (counter + 1)))"
    by (simp add: finite_later_names)
  with assms True show ?thesis by (simp add: loop_measure_def)
next
  case False
  then have "k \<noteq> counter" if "joinpath d (new_name stem k ext) \<in> fmdom' fsys" for k
    using that by auto
  then have "later_names fsys d stem ext counter = later_names fsys d stem ext (counter + 1)"
    unfolding later_names_def by (auto simp: Suc_le_eq intro: le_neq_implies_less)
  with assms False show ?thesis by (simp add: loop_measure_def)
qed

function conflict_loop ::
  "env \<Rightarrow> run_state \<Rightarrow> path \<Rightarrow> string \<Rightarrow> string \<Rightarrow> string option \<Rightarrow> path \<Rightarrow> nat
     \<Rightarrow> resolution \<times> run_state" where
  "conflict_loop env s target_folder stem ext current_file_hash dest_path_final counter =
     (case path_exists env (fs s) dest_path_final of
        Inl e \<Rightarrow> (Raised e, s)
      | Inr ex \<Rightarrow>
          if ex then
            (let existing_file_hash = fst (calculate_hash (fs s) dest_path_final);
                 s1 = emit (snd (calculate_hash (fs s) dest_path_final)) s
             in if truthy existing_file_hash \<and> current_file_hash = existing_file_hash
                then (Matched dest_path_final, emit [Log WARNING] s1)
                else conflict_loop env (emit [Log WARNING] s1) target_folder stem ext
                       current_file_hash
                       (joinpath target_folder (new_name stem counter ext)) (counter + 1))
          else (Free dest_path_final, s))"
  by pat_completeness auto
termination
proof (relation "measure (\<lambda>(env, s, d, stem, ext, h, dest, counter).
    loop_measure (fs s) d stem ext dest counter)", goal_cases)
  case 1
  show ?case by simp
next
  case (2 env s d stem ext h dest counter ex x xa)
  then have "dest \<in> fmdom' (fs s)"
    by (auto simp: path_exists_def split: option.splits)
  moreover from 2 have "fs xa = fs s"
    by (simp add: emit_def)
  ultimately show ?case
    using loop_measure_decreases [of dest "fs s" d stem ext counter]
    by simp
qed

function error_dest_loop ::
  "env \<Rightarrow> filesystem \<Rightarrow> path \<Rightarrow> string \<Rightarrow> string \<Rightarrow> path \<Rightarrow> nat \<Rightarrow> exn + path" where
  "error_dest_loop env fsys error_dir stem ext error_dest counter =
     (case path_exists env fsys error_dest of
        Inl e \<Rightarrow> Inl e
      | Inr ex \<Rightarrow>
          if ex then error_dest_loop env fsys error_dir stem ext
                       (joinpath error_dir (new_name stem counter ext)) (counter + 1)
          else Inr error_dest)"
  by pat_completeness auto
termination
proof (relation "measure (\<lambda>(env, fsys, d, stem, ext, dest, counter).
    loop_measure fsys d stem ext dest counter)", goal_cases)
  case 1
  show ?case by simp
next
  case (2 env fsys d stem ext dest counter ex)
  then have "dest \<in> fmdom' fsys"
    by (auto simp: path_exists_def split: option.splits)
  then show ?case
    using loop_measure_decreases [of dest fsys d stem ext counter]
    by simp
qed


declare conflict_loop.simps [simp del] error_dest_loop.simps [simp del]

section \<open>The body of the loop\<close>

text \<open>
  Deleting a source recognised as a duplicate (lines 299-306, 326-333, 417-424):
  \<^verbatim>\<open>os.remove\<close> inside \<^verbatim>\<open>try ... except OSError\<close>.
\<close>

definition delete_duplicate :: "env \<Rightarrow> run_state \<Rightarrow> path \<Rightarrow> exn option \<times> run_state" where
  "delete_duplicate env s source_path =
     (case os_remove env (fs s) source_path of
        Inr fs' \<Rightarrow>
          (None, s\<lparr>fs := fs', duplicate_deleted_count := duplicate_deleted_count s + 1\<rparr>)
      | Inl e \<Rightarrow>
          if is_OSError e then (None, emit [Log ERROR] (s\<lparr>error_count := error_count s + 1\<rparr>))
          else (Some e, s))"

text \<open>
  The set \<^verbatim>\<open>hashes_in_destination.setdefault(key, set())\<close> returns, and
  \<^verbatim>\<open>hashes_in_destination.setdefault(key, set()).add(h)\<close>.
\<close>

definition recorded :: "(string \<rightharpoonup> string option set) \<Rightarrow> string \<Rightarrow> string option set" where
  "recorded m key = (case m key of None \<Rightarrow> {} | Some hs \<Rightarrow> hs)"

definition record_hash ::
  "string \<Rightarrow> string option \<Rightarrow> (string \<rightharpoonup> string option set) \<Rightarrow> (string \<rightharpoonup> string option set)" where
  "record_hash key h m = m(key \<mapsto> insert h (recorded m key))"

text \<open>The counters after a move or a conversion into \<open>target_folder\<close> (lines 378-382, 449-459).\<close>

definition count_move ::
  "path \<Rightarrow> path \<Rightarrow> (run_state \<Rightarrow> run_state) \<Rightarrow> run_state \<Rightarrow> run_state" where
  "count_move script_dir target_folder incr s =
     (if prefix (str_path (NO_DATE_DIR script_dir)) (str_path target_folder) then s
      else if target_folder \<noteq> ERROR_DIR script_dir then incr s
      else s)"

text \<open>
  The two conflict loops as the body starts them: for a generic move from the name of
  the source with its own suffix (lines 406-436), for a conversion from the name with
  the suffix replaced and with \<open>.jpg\<close> (lines 311-343); the counter starts at 1.
\<close>

definition generic_resolve ::
  "env \<Rightarrow> run_state \<Rightarrow> string \<Rightarrow> path \<Rightarrow> string option \<Rightarrow> resolution \<times> run_state" where
  "generic_resolve env s filename target_folder current_file_hash =
     conflict_loop env s target_folder (stem_of filename) (suffix_of filename)
       current_file_hash (joinpath target_folder filename) 1"

definition heic_resolve ::
  "env \<Rightarrow> run_state \<Rightarrow> string \<Rightarrow> path \<Rightarrow> string option \<Rightarrow> resolution \<times> run_state" where
  "heic_resolve env s filename target_folder current_file_hash =
     (let output_filename = with_suffix_name filename ''.jpg'' in
      conflict_loop env s target_folder (stem_of filename) ''.jpg''
        current_file_hash (joinpath target_folder output_filename) 1)"

text \<open>The generic move (lines 405-466).\<close>

definition generic_move ::
  "path \<Rightarrow> env \<Rightarrow> run_state \<Rightarrow> path \<Rightarrow> string \<Rightarrow> media_type \<Rightarrow> path \<Rightarrow> string option
     \<Rightarrow> exn option \<times> run_state" where
  "generic_move script_dir env s source_path filename media_type target_folder current_file_hash =
     (case generic_resolve env s filename target_folder current_file_hash of
        (Raised e, s1) \<Rightarrow> (Some e, s1)
      | (Matched p, s1) \<Rightarrow> delete_duplicate env s1 source_path
      | (Free dest_path_final, s1) \<Rightarrow>
          (case shutil_move env (fs s1) source_path dest_path_final of
             Inl e \<Rightarrow> (Some e, s1)
           | Inr fs' \<Rightarrow>
               (let s2 = emit [Log INFO] (s1\<lparr>fs := fs'\<rparr>);
                    s3 = (if media_type = media_video then
                            count_move script_dir target_folder
                              (\<lambda>s. s\<lparr>video_moved_count := video_moved_count s + 1\<rparr>) s2
                          else if media_type = media_image then
                            count_move script_dir target_folder
                              (\<lambda>s. s\<lparr>moved_count := moved_count s + 1\<rparr>) s2
                          else s2)
                in if truthy current_file_hash
                   then (None, s3\<lparr>hashes_in_destination :=
                           record_hash (str_path target_folder) current_file_hash
                             (hashes_in_destination s3)\<rparr>)
                   else (None, s3))))"

text \<open>
  The conversion proper, inside \<^verbatim>\<open>try\<close> (lines 349-382): an exception leaves the state
  reached so far.
\<close>

definition heic_try ::
  "path \<Rightarrow> env \<Rightarrow> run_state \<Rightarrow> path \<Rightarrow> path \<Rightarrow> path \<Rightarrow> string option
     \<Rightarrow> exn option \<times> run_state" where
  "heic_try script_dir env s source_path dest_path_final target_folder current_file_hash =
     (let s1 = emit [Log INFO] s in
      case image_convert env (fs s1) source_path dest_path_final of
        Inl e \<Rightarrow> (Some e, s1)
      | Inr fs' \<Rightarrow>
          (let s2 = s1\<lparr>fs := fs', heic_converted_count := heic_converted_count s1 + 1\<rparr>;
               removed = (case os_remove env (fs s2) source_path of
                            Inr fs'' \<Rightarrow> (None, s2\<lparr>fs := fs''\<rparr>)
                          | Inl e \<Rightarrow> if is_OSError e then (None, emit [Log ERROR] s2)
                                     else (Some e, s2))
           in case removed of
                (Some e, s3) \<Rightarrow> (Some e, s3)
              | (None, s3) \<Rightarrow>
                  (let s4 = s3\<lparr>hashes_in_destination :=
                              record_hash (str_path target_folder) current_file_hash
                                (hashes_in_destination s3)\<rparr>
                   in (None, count_move script_dir target_folder
                               (\<lambda>s. s\<lparr>moved_count := moved_count s + 1\<rparr>) s4))))"

text \<open>The HEIC branch (lines 310-403).\<close>

definition heic_convert ::
  "path \<Rightarrow> env \<Rightarrow> run_state \<Rightarrow> path \<Rightarrow> string \<Rightarrow> path \<Rightarrow> string option
     \<Rightarrow> exn option \<times> run_state" where
  "heic_convert script_dir env s source_path filename target_folder current_file_hash =
     (case heic_resolve env s filename target_folder current_file_hash of
        (Raised e, s1) \<Rightarrow> (Some e, s1)
      | (Matched p, s1) \<Rightarrow> delete_duplicate env s1 source_path
      | (Free dest_path_final, s1) \<Rightarrow>
          (case heic_try script_dir env s1 source_path dest_path_final target_folder
                  current_file_hash of
             (None, s2) \<Rightarrow> (None, s2)
           | (Some convert_e, s2) \<Rightarrow>
               (let s3 = emit [Log ERROR] s2;
                    s4 = s3\<lparr>error_count := error_count s3 + 1\<rparr>;
                    error_dest = joinpath (ERROR_DIR script_dir) filename
                in case shutil_move env (fs s4) source_path error_dest of
                     Inr fs' \<Rightarrow> (None, emit [Log INFO] (s4\<lparr>fs := fs'\<rparr>))
                   | Inl move_e \<Rightarrow> (None, emit [Log ERROR] s4))))"

text \<open>The action on a file that is no duplicate of the run (line 310): convert or move.\<close>

definition convert_or_move ::
  "path \<Rightarrow> env \<Rightarrow> run_state \<Rightarrow> path \<Rightarrow> string \<Rightarrow> string \<Rightarrow> media_type \<Rightarrow> path
     \<Rightarrow> string option \<Rightarrow> exn option \<times> run_state" where
  "convert_or_move script_dir env s source_path filename file_ext media_type target_folder
       current_file_hash =
     (if media_type = media_image \<and> file_ext \<in> HEIC_EXTENSIONS
      then heic_convert script_dir env s source_path filename target_folder current_file_hash
      else generic_move script_dir env s source_path filename media_type target_folder
             current_file_hash)"

text \<open>Hashing, the duplicate check of the run, and the action (lines 276-466).\<close>

definition place_file ::
  "path \<Rightarrow> env \<Rightarrow> run_state \<Rightarrow> path \<Rightarrow> string \<Rightarrow> string \<Rightarrow> media_type \<Rightarrow> path option
     \<Rightarrow> exn option \<times> run_state" where
  "place_file script_dir env s source_path filename file_ext media_type target_folder =
     (case target_folder of
        None \<Rightarrow> (None, s)
      | Some tf \<Rightarrow>
          (case mkdir_exn env tf of
             Some e \<Rightarrow> (Some e, s)
           | None \<Rightarrow>
               (let current_file_hash = fst (calculate_hash (fs s) source_path);
                    s1 = emit (snd (calculate_hash (fs s) source_path)) s
                in case current_file_hash of
                     None \<Rightarrow>
                       (let s2 = emit [Log WARNING] s1;
                            tf' = ERROR_DIR script_dir
                        in case mkdir_exn env tf' of
                             Some e \<Rightarrow> (Some e, s2)
                           | None \<Rightarrow>
                               convert_or_move script_dir env
                                 (s2\<lparr>error_count := error_count s2 + 1\<rparr>)
                                 source_path filename file_ext media_type tf' current_file_hash)
                   | Some h \<Rightarrow>
                       (let key = str_path tf;
                            target_hashes = recorded (hashes_in_destination s1) key;
                            s2 = s1\<lparr>hashes_in_destination :=
                                      (hashes_in_destination s1)(key \<mapsto> target_hashes)\<rparr>
                        in if current_file_hash \<in> target_hashes
                           then delete_duplicate env (emit [Log WARNING] s2) source_path
                           else convert_or_move script_dir env s2 source_path filename file_ext
                                  media_type tf current_file_hash))))"

text \<open>The \<^verbatim>\<open>else\<close> branch of lines 266-273: no date, sorted by size.\<close>

definition no_date_target :: "path \<Rightarrow> env \<Rightarrow> run_state \<Rightarrow> path option \<times> run_state" where
  "no_date_target script_dir env s =
     (let size_category = fst (get_file_size_category (stat_size env));
          s1 = emit (snd (get_file_size_category (stat_size env))) s
      in (Some (joinpath (NO_DATE_DIR script_dir) size_category),
          emit [Log INFO] (s1\<lparr>no_date_count := no_date_count s1 + 1\<rparr>)))"

text \<open>The target folder of a media file (lines 253-273).\<close>

definition determine_target ::
  "path \<Rightarrow> env \<Rightarrow> run_state \<Rightarrow> media_type \<Rightarrow> string option \<Rightarrow> path option
     \<Rightarrow> path option \<times> run_state" where
  "determine_target script_dir env s media_type year_or_status target_folder =
     (if media_type = media_image \<or> media_type = media_video then
        (if year_or_status = Some ''error'' then
           (Some (ERROR_DIR script_dir),
            emit [Log WARNING] (s\<lparr>error_count := error_count s + 1\<rparr>))
         else
           (case year_or_status of
              Some y \<Rightarrow>
                if y \<noteq> [] then (Some (joinpath (DEST_DIR script_dir) y), emit [Log INFO] s)
                else no_date_target script_dir env s
            | None \<Rightarrow> no_date_target script_dir env s))
      else (target_folder, s))"


text \<open>A classified file: its target folder, then hashing and the action (lines 253-466).\<close>

definition locate_and_place ::
  "path \<Rightarrow> env \<Rightarrow> run_state \<Rightarrow> path \<Rightarrow> string \<Rightarrow> string \<Rightarrow> media_type \<Rightarrow> string option
     \<Rightarrow> path option \<Rightarrow> exn option \<times> run_state" where
  "locate_and_place script_dir env s source_path filename file_ext media_type year_or_status
       target_folder =
     (let located = determine_target script_dir env s media_type year_or_status target_folder
      in place_file script_dir env (snd located) source_path filename file_ext media_type
           (fst located))"

text \<open>The body of \<^verbatim>\<open>try\<close> for one file (lines 208-466).\<close>

definition process_body ::
  "path \<Rightarrow> env \<Rightarrow> run_state \<Rightarrow> path \<Rightarrow> string \<Rightarrow> exn option \<times> run_state" where
  "process_body script_dir env s root_dir filename =
     (let source_path = joinpath root_dir filename in
      if DEST_DIR script_dir \<in> set (parents source_path) then
        (None, emit [Log INFO] (s\<lparr>skipped_count := skipped_count s + 1\<rparr>))
      else
        (let file_ext = lower (suffix_of filename) in
         if file_ext \<in> IMAGE_EXTENSIONS then
           (let year_or_status = fst (get_date_taken file_ext (decode env));
                s1 = emit (snd (get_date_taken file_ext (decode env))) s
            in locate_and_place script_dir env s1 source_path filename file_ext media_image
                 year_or_status None)
         else if file_ext \<in> VIDEO_EXTENSIONS then
           locate_and_place script_dir env s source_path filename file_ext media_video None None
         else if file_ext \<in> ARCHIVE_EXTENSIONS then
           (let s1 = emit [Log INFO] (s\<lparr>archive_moved_count := archive_moved_count s + 1\<rparr>)
            in locate_and_place script_dir env s1 source_path filename file_ext media_archive
                 None (Some (ARCHIVES_DIR script_dir)))
         else
           (case os_remove env (fs s) source_path of
              Inr fs' \<Rightarrow>
                (None, emit [Log INFO]
                   (s\<lparr>fs := fs', deleted_non_media_count := deleted_non_media_count s + 1\<rparr>))
            | Inl e \<Rightarrow>
                if is_OSError e
                then (None, emit [Log ERROR] (s\<lparr>error_count := error_count s + 1\<rparr>))
                else (Some e, s))))"

text \<open>
  One file with the three \<^verbatim>\<open>except\<close> clauses of the loop (lines 207, 468-492). The
  result holds an exception only when the last clause itself raises: nothing catches
  it, and it ends the run.
\<close>

definition process_file ::
  "path \<Rightarrow> env \<Rightarrow> run_state \<Rightarrow> path \<Rightarrow> string \<Rightarrow> exn option \<times> run_state" where
  "process_file script_dir env s root_dir filename =
     (case process_body script_dir env s root_dir filename of
        (None, s1) \<Rightarrow> (None, s1)
      | (Some e, s1) \<Rightarrow>
          if e = FileNotFoundError then
            (None, emit [Log WARNING] (s1\<lparr>skipped_count := skipped_count s1 + 1\<rparr>))
          else if e = PermissionError then
            (None, emit [Log ERROR] (s1\<lparr>error_count := error_count s1 + 1\<rparr>))
          else
            (let s2 = emit [Log ERROR] s1;
                 s3 = s2\<lparr>error_count := error_count s2 + 1\<rparr>;
                 source_path = joinpath root_dir filename
             in case path_exists env (fs s3) source_path of
                  Inl e' \<Rightarrow> (Some e', s3)
                | Inr ex \<Rightarrow>
                    if ex then
                      (case error_dest_loop env (fs s3) (ERROR_DIR script_dir)
                              (stem_of filename) (suffix_of filename)
                              (joinpath (ERROR_DIR script_dir) filename) 1 of
                         Inl e' \<Rightarrow> (Some e', s3)
                       | Inr error_dest \<Rightarrow>
                           (case shutil_move env (fs s3) source_path error_dest of
                              Inl e' \<Rightarrow> (Some e', s3)
                            | Inr fs' \<Rightarrow> (None, emit [Log INFO] (s3\<lparr>fs := fs'\<rparr>))))
                    else (None, s3)))"

text \<open>
  The walk (lines 199-201): the files in the order \<^verbatim>\<open>os.walk\<close> yields them, each with its
  directory and with the environment it meets.
\<close>

fun walk :: "path \<Rightarrow> run_state \<Rightarrow> (path \<times> string \<times> env) list \<Rightarrow> exn option \<times> run_state" where
  "walk script_dir s [] = (None, s)"
| "walk script_dir s ((root_dir, filename, env) # rest) =
     (case process_file script_dir env s root_dir filename of
        (None, s') \<Rightarrow> walk script_dir s' rest
      | (Some e, s') \<Rightarrow> (Some e, s'))"

text \<open>The state at line 192: every counter zero, no hash recorded.\<close>

definition initial_state :: "filesystem \<Rightarrow> run_state" where
  "initial_state fsys =
     \<lparr>moved_count = 0, video_moved_count = 0, heic_converted_count = 0, no_date_count = 0,
      archive_moved_count = 0, deleted_non_media_count = 0, error_count = 0, skipped_count = 0,
      duplicate_deleted_count = 0, hashes_in_destination = Map.empty, fs = fsys,
      trace = [Log INFO, Log INFO]\<rparr>"

text \<open>
  \<^verbatim>\<open>sort_photos\<close>: the four \<^verbatim>\<open>mkdir\<close> calls at the start may raise; without the source
  directory the function logs an error and returns; else the walk, then the summary.
\<close>

definition sort_photos ::
  "path \<Rightarrow> exn option \<Rightarrow> bool \<Rightarrow> filesystem \<Rightarrow> (path \<times> string \<times> env) list
     \<Rightarrow> exn option \<times> run_state" where
  "sort_photos script_dir bootstrap_exn source_is_dir fsys items =
     (case bootstrap_exn of
        Some e \<Rightarrow> (Some e, (initial_state fsys)\<lparr>trace := []\<rparr>)
      | None \<Rightarrow>
          if \<not> source_is_dir then (None, emit [Log ERROR] (initial_state fsys))
          else
            (case walk script_dir (initial_state fsys) items of
               (Some e, s) \<Rightarrow> (Some e, s)
             | (None, s) \<Rightarrow> (None, emit (replicate 12 (Log INFO)) s)))"

definition total_count :: "run_state \<Rightarrow> nat" where
  "total_count s =
     moved_count s + video_moved_count s + heic_converted_count s + no_date_count s +
     archive_moved_count s + deleted_non_media_count s + error_count s + skipped_count s +
     duplicate_deleted_count s"

section \<open>The claims as the specification words them\<close>

text \<open>
  The acceptance test of the specification: the value is a string of length at least 10
  with a colon at character index 4 and at character index 7.
\<close>

definition spec_tag_accepted :: "exif_value option \<Rightarrow> bool" where
  "spec_tag_accepted v =
     (case v of
        Some (ExifStr d) \<Rightarrow> 10 \<le> length d \<and> d ! 4 = CHR '':'' \<and> d ! 7 = CHR '':''
      | _ \<Rightarrow> False)"

definition spec_tag_text :: "exif_value option \<Rightarrow> string" where
  "spec_tag_text v = (case v of Some (ExifStr d) \<Rightarrow> d | _ \<Rightarrow> [])"

text \<open>The tag lookup of the specification on what the decoder returned.\<close>

definition spec_tag :: "exif option \<Rightarrow> nat \<Rightarrow> exif_value option" where
  "spec_tag exif_data t = (case exif_data of None \<Rightarrow> None | Some ex \<Rightarrow> map_of ex t)"

definition spec_year :: "exif option \<Rightarrow> string option" where
  "spec_year exif_data =
     (if spec_tag_accepted (spec_tag exif_data 36867)
        then Some (take 4 (spec_tag_text (spec_tag exif_data 36867)))
      else if spec_tag_accepted (spec_tag exif_data 306)
        then Some (take 4 (spec_tag_text (spec_tag exif_data 306)))
      else None)"

text \<open>The size tier of the specification, by the size in MB.\<close>

definition spec_tier :: "rat \<Rightarrow> string" where
  "spec_tier mb =
     (if mb < 1 / 2 then ''tiny_under_0.5MB''
      else if mb < 1 then ''small_0.5-1MB''
      else if mb < 2 then ''medium_1-2MB''
      else if mb < 5 then ''large_2-5MB''
      else if mb < 10 then ''xlarge_5-10MB''
      else ''huge_over_10MB'')"

definition six_tiers :: "string list" where
  "six_tiers =
     [''tiny_under_0.5MB'', ''small_0.5-1MB'', ''medium_1-2MB'', ''large_2-5MB'',
      ''xlarge_5-10MB'', ''huge_over_10MB'']"

text \<open>
  Conflict resolution as the specification words it. The candidate names of an item:
  the desired name first, then the stem with the counter 1, 2, ... before the extension.
  A candidate is occupied by other content when a file exists there whose digest is
  unavailable or differs from that of the source. The resolver ends at the first
  candidate not so occupied: unused, or holding the content of the source.
\<close>

definition candidate :: "path \<Rightarrow> string \<Rightarrow> string \<Rightarrow> string \<Rightarrow> nat \<Rightarrow> path" where
  "candidate target_folder first stem ext k =
     (if k = 0 then joinpath target_folder first
      else joinpath target_folder (new_name stem k ext))"

definition hash_matches :: "filesystem \<Rightarrow> string option \<Rightarrow> path \<Rightarrow> bool" where
  "hash_matches fsys h p =
     (truthy (fst (calculate_hash fsys p)) \<and> h = fst (calculate_hash fsys p))"

definition occupied_by_other :: "filesystem \<Rightarrow> string option \<Rightarrow> path \<Rightarrow> bool" where
  "occupied_by_other fsys h p = (p \<in> fmdom' fsys \<and> \<not> hash_matches fsys h p)"

definition first_free :: "filesystem \<Rightarrow> string option \<Rightarrow> (nat \<Rightarrow> path) \<Rightarrow> resolution \<Rightarrow> bool" where
  "first_free fsys h cand r =
     (\<exists>n. (\<forall>k<n. occupied_by_other fsys h (cand k)) \<and>
          \<not> occupied_by_other fsys h (cand n) \<and>
          r = (if cand n \<in> fmdom' fsys then Matched (cand n) else Free (cand n)))"

text \<open>The candidates of a loop entered at any point: the current name, then the counter on.\<close>

definition loop_candidate :: "path \<Rightarrow> string \<Rightarrow> string \<Rightarrow> path \<Rightarrow> nat \<Rightarrow> nat \<Rightarrow> path" where
  "loop_candidate tf stem ext dest c k =
     (if k = 0 then dest else joinpath tf (new_name stem (c + k - 1) ext))"

text \<open>The exception a decoder behaviour raises, if any.\<close>

definition raised_by :: "decode_behaviour \<Rightarrow> exn option" where
  "raised_by beh =
     (case beh of
        OpenRaises e \<Rightarrow> Some e
      | LoadRaises e \<Rightarrow> Some e
      | GetexifRaises e \<Rightarrow> Some e
      | Exif d \<Rightarrow> None)"

text \<open>
  The dictionary of recorded hashes \<open>m'\<close> holds, for every folder, at least what \<open>m\<close>
  holds.
\<close>

definition extends ::
  "(string \<rightharpoonup> string option set) \<Rightarrow> (string \<rightharpoonup> string option set) \<Rightarrow> bool" where
  "extends m m' = (\<forall>key. recorded m key \<subseteq> recorded m' key)"

section \<open>Example inputs\<close>

text \<open>An environment in which no call fails, and files with a given digest.\<close>

definition quiet_env :: env where
  "quiet_env =
     \<lparr>decode = Exif None, stat_size = Inr 300000, mkdir_exn = (\<lambda>p. None),
      exists_exn = (\<lambda>p. None), remove_exn = None, move_exn = (\<lambda>p. None),
      convert = Inr \<lparr>digest = ''jpeg-of-heic'', readable = True\<rparr>\<rparr>"

definition file_with :: "string \<Rightarrow> file_entry" where
  "file_with d = \<lparr>digest = d, readable = True\<rparr>"

definition unreadable_file :: "string \<Rightarrow> file_entry" where
  "unreadable_file d = \<lparr>digest = d, readable = False\<rparr>"

definition year_2020 :: path where
  "year_2020 = [''sorted_photos'', ''2020'']"

definition occupied_2020 :: filesystem where
  "occupied_2020 =
     fmupd (joinpath year_2020 ''img.jpg'') (file_with ''aaaa'')
       (fmupd (joinpath year_2020 ''img_1.jpg'') (file_with ''bbbb'')
         (fmupd [''unsorted_photos'', ''img.jpg''] (file_with ''cccc'') fmempty))"

definition unreadable_2020 :: filesystem where
  "unreadable_2020 =
     fmupd (joinpath year_2020 ''img.jpg'') (unreadable_file ''cccc'')
       (fmupd [''unsorted_photos'', ''img.jpg''] (file_with ''cccc'') fmempty)"

definition unreadable_jpg_2020 :: filesystem where
  "unreadable_jpg_2020 =
     fmupd (joinpath year_2020 ''a.jpg'') (unreadable_file ''eeee'')
       (fmupd [''unsorted_photos'', ''a.heic''] (file_with ''dddd'') fmempty)"

definition unreadable_then_copy :: filesystem where
  "unreadable_then_copy =
     fmupd (joinpath year_2020 ''img.jpg'') (unreadable_file ''eeee'')
       (fmupd (joinpath year_2020 ''img_1.jpg'') (file_with ''cccc'')
         (fmupd [''unsorted_photos'', ''img.jpg''] (file_with ''cccc'') fmempty))"

text \<open>Files, environments and states of the examples below.\<close>

definition one_bad_jpg :: filesystem where
  "one_bad_jpg = fmupd [''unsorted_photos'', ''bad.jpg''] (file_with ''ffff'') fmempty"

definition unidentified_env :: env where
  "unidentified_env = quiet_env\<lparr>decode := OpenRaises UnidentifiedImageError\<rparr>"

definition truncated_env :: env where
  "truncated_env = quiet_env\<lparr>decode := LoadRaises OSError\<rparr>"

definition heic_2019 :: env where
  "heic_2019 = quiet_env\<lparr>decode := Exif (Some [(306, ExifStr ''2019:01:02 03:04:05'')])\<rparr>"

definition one_heic :: filesystem where
  "one_heic = fmupd [''unsorted_photos'', ''a.heic''] (file_with ''dddd'') fmempty"









definition two_copies :: filesystem where
  "two_copies =
     fmupd [''unsorted_photos'', ''a.jpg''] (file_with ''cccc'')
       (fmupd [''unsorted_photos'', ''locked'', ''b.jpg''] (file_with ''cccc'') fmempty)"

definition remove_denied_env :: env where
  "remove_denied_env = quiet_env\<lparr>remove_exn := Some PermissionError\<rparr>"

definition tiny_folder :: path where
  "tiny_folder = [''sorted_photos'', ''no_date'', ''tiny_under_0.5MB'']"

definition three_files :: filesystem where
  "three_files =
     fmupd [''unsorted_photos'', ''notes.txt''] (file_with ''7777'') two_copies"

definition after_first :: run_state where
  "after_first = snd (walk [] (initial_state three_files) [([''unsorted_photos''], ''a.jpg'', quiet_env)])"

definition after_between :: run_state where
  "after_between = snd (walk [] after_first [([''unsorted_photos''], ''notes.txt'', quiet_env)])"

text \<open>The definitions an example unfolds.\<close>

lemmas model_defs =
  process_file_def process_body_def locate_and_place_def determine_target_def no_date_target_def
  place_file_def convert_or_move_def
  heic_convert_def heic_try_def heic_resolve_def generic_move_def generic_resolve_def
  delete_duplicate_def count_move_def record_hash_def recorded_def
  conflict_loop.simps error_dest_loop.simps
  os_remove_def shutil_move_def path_exists_def image_convert_def calculate_hash_def
  get_date_taken_def date_handler_def year_of_tag_def truthy_def get_file_size_category_def
  initial_state_def
  joinpath_def parents_def DEST_DIR_def NO_DATE_DIR_def ERROR_DIR_def ARCHIVES_DIR_def
  IMAGE_EXTENSIONS_def VIDEO_EXTENSIONS_def HEIC_EXTENSIONS_def ARCHIVE_EXTENSIONS_def
  lower_def lower_char_def suffix_of_def stem_of_def with_suffix_name_def new_name_def
  digit_char_def is_OSError_def Let_def

lemmas example_defs = quiet_env_def file_with_def unreadable_file_def year_2020_def

section \<open>Date extraction\<close>

lemma year_of_tag_spec:
  "year_of_tag v = (if spec_tag_accepted v then Some (take 4 (spec_tag_text v)) else None)"
  by (auto simp: year_of_tag_def spec_tag_accepted_def spec_tag_text_def
      split: option.splits exif_value.splits)

lemma truthy_year_of_tag: "truthy (year_of_tag v) = spec_tag_accepted v"
  by (auto simp: year_of_tag_def spec_tag_accepted_def truthy_def
      split: option.splits exif_value.splits)

text \<open>
  C5. On an image whose decoder returns, date extraction reads tag 36867 (the original
  capture timestamp) first and falls back to tag 306 (the generic timestamp); a value is
  accepted exactly when it is a string of length at least 10 with a colon at index 4 and
  at index 7, the year is then its first four characters, and otherwise the file yields
  no date.
\<close>

theorem get_date_taken_year:
  assumes "file_ext \<in> IMAGE_EXTENSIONS"
  shows "fst (get_date_taken file_ext (Exif exif_data)) = spec_year exif_data"
proof (cases exif_data)
  case None
  then show ?thesis
    by (simp add: get_date_taken_def spec_year_def spec_tag_def spec_tag_accepted_def truthy_def)
next
  case (Some ex)
  have fallback: "fst (if truthy y then (y, evs) else (None, evs)) = y"
    if "truthy y \<or> y = None" for y :: "string option" and evs :: "event list"
    using that by auto
  have shape: "truthy (year_of_tag v) \<or> year_of_tag v = None" for v
    by (auto simp: year_of_tag_def truthy_def split: option.splits exif_value.splits)
  show ?thesis
  proof (cases "ex = []")
    case True
    with Some show ?thesis
      by (simp add: get_date_taken_def spec_year_def spec_tag_def spec_tag_accepted_def truthy_def)
  next
    case False
    with Some assms show ?thesis
      using shape [of "map_of ex 36867"] shape [of "map_of ex 306"]
      by (auto simp: get_date_taken_def spec_year_def spec_tag_def Let_def
          truthy_year_of_tag year_of_tag_spec truthy_def)
  qed
qed

theorem get_date_taken_year_witness:
  "''.jpg'' \<in> IMAGE_EXTENSIONS \<and>
   fst (get_date_taken ''.jpg''
     (Exif (Some [(36867, ExifStr ''2021-06-15 10:00:00''), (306, ExifStr ''2019:01:02 03:04:05'')])))
     = Some ''2019''"
  using get_date_taken_year [of "''.jpg''"
      "Some [(36867, ExifStr ''2021-06-15 10:00:00''), (306, ExifStr ''2019:01:02 03:04:05'')]"]
  by (simp add: IMAGE_EXTENSIONS_def spec_year_def spec_tag_def spec_tag_accepted_def
      spec_tag_text_def)

section \<open>Decoder handles\<close>

text \<open>
  C8. The handle is closed on the path where the decoder returns, and only there: when
  \<^verbatim>\<open>img.load()\<close> raises after \<^verbatim>\<open>Image.open\<close> returned a handle (a truncated JPEG), the
  \<^verbatim>\<open>except\<close> clause is entered without \<^verbatim>\<open>img.close()\<close> and the handle stays open.
\<close>

theorem get_date_taken_leaves_handle_open:
  "get_date_taken ''.jpg'' (LoadRaises OSError) = (None, [ImgOpen, Log ERROR]) \<and>
   \<not> handles_released (snd (get_date_taken ''.jpg'' (LoadRaises OSError)))"
  by (simp add: get_date_taken_def IMAGE_EXTENSIONS_def date_handler_def handles_released_def)

section \<open>Size tiers\<close>

lemma six_tiers_distinct: "distinct six_tiers"
  by (simp add: six_tiers_def)

text \<open>
  C9. The size categorizer maps a size in bytes to the tier of its size in MB: under 0.5,
  0.5 up to 1, 1 up to 2, 2 up to 5, 5 up to 10, 10 or more; the result is one of the six
  tiers, whose names differ. When the size cannot be read, whatever the exception, it
  returns \<open>unknown_size\<close> and logs a warning only.
\<close>

theorem get_file_size_category_tiers:
  "fst (get_file_size_category (Inr size_bytes)) = spec_tier (of_nat size_bytes / (1024 * 1024)) \<and>
   fst (get_file_size_category (Inr size_bytes)) \<in> set six_tiers \<and>
   distinct six_tiers \<and>
   get_file_size_category (Inl e) = (''unknown_size'', [Log WARNING])"
  by (simp add: get_file_size_category_def spec_tier_def six_tiers_def Let_def)

section \<open>Conflict resolution\<close>

lemma emit_emit: "emit a (emit b s) = emit (b @ a) s"
  by (simp add: emit_def)

lemma conflict_loop_raise:
  "path_exists env (fs s) dest = Inl e \<Longrightarrow>
     conflict_loop env s tf stem ext h dest c = (Raised e, s)"
  by (subst conflict_loop.simps) simp

lemma conflict_loop_free:
  "path_exists env (fs s) dest = Inr False \<Longrightarrow>
     conflict_loop env s tf stem ext h dest c = (Free dest, s)"
  by (subst conflict_loop.simps) simp

lemma conflict_loop_match:
  "path_exists env (fs s) dest = Inr True \<Longrightarrow> hash_matches (fs s) h dest \<Longrightarrow>
     conflict_loop env s tf stem ext h dest c
       = (Matched dest, emit (snd (calculate_hash (fs s) dest) @ [Log WARNING]) s)"
  by (subst conflict_loop.simps) (simp add: Let_def emit_emit hash_matches_def)

lemma conflict_loop_rename:
  "path_exists env (fs s) dest = Inr True \<Longrightarrow> \<not> hash_matches (fs s) h dest \<Longrightarrow>
     conflict_loop env s tf stem ext h dest c
       = conflict_loop env (emit (snd (calculate_hash (fs s) dest) @ [Log WARNING]) s)
           tf stem ext h (joinpath tf (new_name stem c ext)) (c + 1)"
  by (subst conflict_loop.simps) (auto simp: Let_def emit_emit hash_matches_def)

lemma conflict_loop_cases [consumes 0, case_names raise free match rename]:
  assumes "\<And>e. path_exists env (fs s) dest = Inl e \<Longrightarrow> P"
      and "path_exists env (fs s) dest = Inr False \<Longrightarrow> P"
      and "path_exists env (fs s) dest = Inr True \<Longrightarrow> hash_matches (fs s) h dest \<Longrightarrow> P"
      and "path_exists env (fs s) dest = Inr True \<Longrightarrow> \<not> hash_matches (fs s) h dest \<Longrightarrow> P"
  shows P
  using assms by (cases "path_exists env (fs s) dest") auto

lemma conflict_loop_induct [consumes 0, case_names raise free match rename]:
  assumes "\<And>env s tf stem ext h dest c e.
             path_exists env (fs s) dest = Inl e \<Longrightarrow> P env s tf stem ext h dest c"
      and "\<And>env s tf stem ext h dest c.
             path_exists env (fs s) dest = Inr False \<Longrightarrow> P env s tf stem ext h dest c"
      and "\<And>env s tf stem ext h dest c.
             path_exists env (fs s) dest = Inr True \<Longrightarrow> hash_matches (fs s) h dest
             \<Longrightarrow> P env s tf stem ext h dest c"
      and "\<And>env s tf stem ext h dest c.
             path_exists env (fs s) dest = Inr True \<Longrightarrow> \<not> hash_matches (fs s) h dest
             \<Longrightarrow> P env (emit (snd (calculate_hash (fs s) dest) @ [Log WARNING]) s)
                   tf stem ext h (joinpath tf (new_name stem c ext)) (c + 1)
             \<Longrightarrow> P env s tf stem ext h dest c"
  shows "P env s tf stem ext h dest c"
proof (induction env s tf stem ext h dest c rule: conflict_loop.induct)
  case (1 env s tf stem ext h dest c)
  show ?case
  proof (cases rule: conflict_loop_cases [of env s dest _ h])
    case (raise e)
    then show ?thesis by (rule assms(1))
  next
    case free
    then show ?thesis by (rule assms(2))
  next
    case match
    then show ?thesis by (rule assms(3))
  next
    case rename
    then have "P env (emit [Log WARNING] (emit (snd (calculate_hash (fs s) dest)) s))
        tf stem ext h (joinpath tf (new_name stem c ext)) (c + 1)"
      using 1 [of True "fst (calculate_hash (fs s) dest)"
                  "emit (snd (calculate_hash (fs s) dest)) s"]
      by (simp add: hash_matches_def)
    then have "P env (emit (snd (calculate_hash (fs s) dest) @ [Log WARNING]) s)
        tf stem ext h (joinpath tf (new_name stem c ext)) (c + 1)"
      by (simp add: emit_emit)
    with rename show ?thesis
      by (rule assms(4))
  qed
qed

lemma conflict_loop_state:
  "\<exists>evs. snd (conflict_loop env s tf stem ext h dest c) = emit evs s"
proof (induction env s tf stem ext h dest c rule: conflict_loop_induct)
  case (raise env s tf stem ext h dest c e)
  then have "snd (conflict_loop env s tf stem ext h dest c) = emit [] s"
    by (simp add: conflict_loop_raise emit_def)
  then show ?case by blast
next
  case (free env s tf stem ext h dest c)
  then have "snd (conflict_loop env s tf stem ext h dest c) = emit [] s"
    by (simp add: conflict_loop_free emit_def)
  then show ?case by blast
next
  case (match env s tf stem ext h dest c)
  then have "snd (conflict_loop env s tf stem ext h dest c)
      = emit (snd (calculate_hash (fs s) dest) @ [Log WARNING]) s"
    by (simp only: conflict_loop_match snd_conv)
  then show ?case by blast
next
  case (rename env s tf stem ext h dest c)
  from rename(3) obtain evs where
    "snd (conflict_loop env (emit (snd (calculate_hash (fs s) dest) @ [Log WARNING]) s)
           tf stem ext h (joinpath tf (new_name stem c ext)) (c + 1))
       = emit evs (emit (snd (calculate_hash (fs s) dest) @ [Log WARNING]) s)"
    by blast
  then have "snd (conflict_loop env s tf stem ext h dest c)
      = emit ((snd (calculate_hash (fs s) dest) @ [Log WARNING]) @ evs) s"
    by (simp only: conflict_loop_rename [OF rename(1,2)] emit_emit)
  then show ?case by blast
qed


lemma path_exists_no_fault:
  "exists_exn env p = None \<Longrightarrow> path_exists env fsys p = Inr (p \<in> fmdom' fsys)"
  by (simp add: path_exists_def)

lemma loop_candidate_shift:
  "loop_candidate tf stem ext (joinpath tf (new_name stem c ext)) (c + 1) k
     = loop_candidate tf stem ext dest c (Suc k)"
  by (simp add: loop_candidate_def)

lemma conflict_loop_first_candidate:
  assumes "\<And>p. exists_exn env p = None"
  shows "\<exists>n. (\<forall>k<n. occupied_by_other (fs s) h (loop_candidate tf stem ext dest c k)) \<and>
             \<not> occupied_by_other (fs s) h (loop_candidate tf stem ext dest c n) \<and>
             fst (conflict_loop env s tf stem ext h dest c)
               = (if loop_candidate tf stem ext dest c n \<in> fmdom' (fs s)
                  then Matched (loop_candidate tf stem ext dest c n)
                  else Free (loop_candidate tf stem ext dest c n))"
  using assms
proof (induction env s tf stem ext h dest c rule: conflict_loop_induct)
  case (raise env s tf stem ext h dest c e)
  then show ?case by (simp add: path_exists_def)
next
  case (free env s tf stem ext h dest c)
  then have "dest \<notin> fmdom' (fs s)" by (simp add: path_exists_def)
  with free(1) have "\<not> occupied_by_other (fs s) h (loop_candidate tf stem ext dest c 0) \<and>
      fst (conflict_loop env s tf stem ext h dest c)
        = (if loop_candidate tf stem ext dest c 0 \<in> fmdom' (fs s)
           then Matched (loop_candidate tf stem ext dest c 0)
           else Free (loop_candidate tf stem ext dest c 0))"
    by (simp add: conflict_loop_free loop_candidate_def occupied_by_other_def)
  then show ?case by blast
next
  case (match env s tf stem ext h dest c)
  then have "dest \<in> fmdom' (fs s)" by (simp add: path_exists_def)
  with match(1,2) have "\<not> occupied_by_other (fs s) h (loop_candidate tf stem ext dest c 0) \<and>
      fst (conflict_loop env s tf stem ext h dest c)
        = (if loop_candidate tf stem ext dest c 0 \<in> fmdom' (fs s)
           then Matched (loop_candidate tf stem ext dest c 0)
           else Free (loop_candidate tf stem ext dest c 0))"
    by (simp add: conflict_loop_match loop_candidate_def occupied_by_other_def)
  then show ?case by blast
next
  case (rename env s tf stem ext h dest c)
  let ?s' = "emit (snd (calculate_hash (fs s) dest) @ [Log WARNING]) s"
  let ?cand = "loop_candidate tf stem ext dest c"
  from rename(1) rename(4) have here: "dest \<in> fmdom' (fs s)" by (simp add: path_exists_def)
  have "\<exists>n. (\<forall>k<n. occupied_by_other (fs ?s') h
                 (loop_candidate tf stem ext (joinpath tf (new_name stem c ext)) (c + 1) k)) \<and>
             \<not> occupied_by_other (fs ?s') h
                 (loop_candidate tf stem ext (joinpath tf (new_name stem c ext)) (c + 1) n) \<and>
             fst (conflict_loop env ?s' tf stem ext h (joinpath tf (new_name stem c ext)) (c + 1))
               = (if loop_candidate tf stem ext (joinpath tf (new_name stem c ext)) (c + 1) n
                      \<in> fmdom' (fs ?s')
                  then Matched (loop_candidate tf stem ext (joinpath tf (new_name stem c ext)) (c + 1) n)
                  else Free (loop_candidate tf stem ext (joinpath tf (new_name stem c ext)) (c + 1) n))"
    by (rule rename(3) [OF rename(4)])
  then obtain n where
      before: "\<forall>k<n. occupied_by_other (fs s) h (?cand (Suc k))"
      and at: "\<not> occupied_by_other (fs s) h (?cand (Suc n))"
      and res: "fst (conflict_loop env ?s' tf stem ext h (joinpath tf (new_name stem c ext)) (c + 1))
          = (if ?cand (Suc n) \<in> fmdom' (fs s) then Matched (?cand (Suc n)) else Free (?cand (Suc n)))"
    unfolding loop_candidate_shift [where dest = dest] emit_fields by blast
  have first: "occupied_by_other (fs s) h (?cand 0)"
    using here rename(2) by (simp add: occupied_by_other_def loop_candidate_def)
  have "\<forall>k<Suc n. occupied_by_other (fs s) h (?cand k)"
  proof (intro allI impI)
    fix k assume "k < Suc n"
    then show "occupied_by_other (fs s) h (?cand k)"
      using first before by (cases k) auto
  qed
  moreover have "fst (conflict_loop env s tf stem ext h dest c)
      = (if ?cand (Suc n) \<in> fmdom' (fs s) then Matched (?cand (Suc n)) else Free (?cand (Suc n)))"
    using res by (simp only: conflict_loop_rename [OF rename(1,2)])
  ultimately show ?case using at by blast
qed

lemma conflict_loop_matched:
  "fst (conflict_loop env s tf stem ext h dest c) = Matched p \<Longrightarrow>
     p \<in> fmdom' (fs s) \<and> hash_matches (fs s) h p"
proof (induction env s tf stem ext h dest c rule: conflict_loop_induct)
  case (raise env s tf stem ext h dest c e)
  then show ?case by (simp add: conflict_loop_raise)
next
  case (free env s tf stem ext h dest c)
  then show ?case by (simp add: conflict_loop_free)
next
  case (match env s tf stem ext h dest c)
  then show ?case by (auto simp: conflict_loop_match path_exists_def split: option.splits)
next
  case (rename env s tf stem ext h dest c)
  from rename(4) have "fst (conflict_loop env (emit (snd (calculate_hash (fs s) dest) @ [Log WARNING]) s)
      tf stem ext h (joinpath tf (new_name stem c ext)) (c + 1)) = Matched p"
    by (simp only: conflict_loop_rename [OF rename(1,2)])
  from rename(3) [OF this] show ?case by simp
qed

lemma conflict_loop_free_result:
  "fst (conflict_loop env s tf stem ext h dest c) = Free p \<Longrightarrow> p \<notin> fmdom' (fs s)"
proof (induction env s tf stem ext h dest c rule: conflict_loop_induct)
  case (raise env s tf stem ext h dest c e)
  then show ?case by (simp add: conflict_loop_raise)
next
  case (free env s tf stem ext h dest c)
  then show ?case by (auto simp: conflict_loop_free path_exists_def split: option.splits)
next
  case (match env s tf stem ext h dest c)
  then show ?case by (simp add: conflict_loop_match)
next
  case (rename env s tf stem ext h dest c)
  from rename(4) have "fst (conflict_loop env (emit (snd (calculate_hash (fs s) dest) @ [Log WARNING]) s)
      tf stem ext h (joinpath tf (new_name stem c ext)) (c + 1)) = Free p"
    by (simp only: conflict_loop_rename [OF rename(1,2)])
  from rename(3) [OF this] show ?case by simp
qed

lemma candidate_loop_candidate:
  "loop_candidate tf stem ext (joinpath tf first) 1 k = candidate tf first stem ext k"
  by (simp add: loop_candidate_def candidate_def)

lemma conflict_loop_fields:
  "fs (snd (conflict_loop env s tf stem ext h dest c)) = fs s"
  "hashes_in_destination (snd (conflict_loop env s tf stem ext h dest c)) = hashes_in_destination s"
  "moved_count (snd (conflict_loop env s tf stem ext h dest c)) = moved_count s"
  "video_moved_count (snd (conflict_loop env s tf stem ext h dest c)) = video_moved_count s"
  "heic_converted_count (snd (conflict_loop env s tf stem ext h dest c)) = heic_converted_count s"
  "no_date_count (snd (conflict_loop env s tf stem ext h dest c)) = no_date_count s"
  "archive_moved_count (snd (conflict_loop env s tf stem ext h dest c)) = archive_moved_count s"
  "deleted_non_media_count (snd (conflict_loop env s tf stem ext h dest c)) = deleted_non_media_count s"
  "error_count (snd (conflict_loop env s tf stem ext h dest c)) = error_count s"
  "skipped_count (snd (conflict_loop env s tf stem ext h dest c)) = skipped_count s"
  "duplicate_deleted_count (snd (conflict_loop env s tf stem ext h dest c)) = duplicate_deleted_count s"
  using conflict_loop_state [of env s tf stem ext h dest c] by auto

lemma calculate_hash_unavailable:
  "fst (calculate_hash fsys p) = None \<Longrightarrow> snd (calculate_hash fsys p) = [Log ERROR]"
  by (auto simp: calculate_hash_def split: option.splits if_splits)

lemma generic_resolve_first_free:
  assumes "\<And>p. exists_exn env p = None"
  shows "first_free (fs s) h (candidate tf filename (stem_of filename) (suffix_of filename))
           (fst (generic_resolve env s filename tf h))"
  using conflict_loop_first_candidate [OF assms, of s h tf "stem_of filename" "suffix_of filename"
          "joinpath tf filename" 1]
  unfolding candidate_loop_candidate generic_resolve_def first_free_def
  by blast

lemma heic_resolve_first_free:
  assumes "\<And>p. exists_exn env p = None"
  shows "first_free (fs s) h
           (candidate tf (with_suffix_name filename ''.jpg'') (stem_of filename) ''.jpg'')
           (fst (heic_resolve env s filename tf h))"
  using conflict_loop_first_candidate [OF assms, of s h tf "stem_of filename" "''.jpg''"
          "joinpath tf (with_suffix_name filename ''.jpg'')" 1]
  unfolding candidate_loop_candidate heic_resolve_def Let_def first_free_def
  by blast

text \<open>
  C6. When no existence check raises, the generic move and the HEIC conversion resolve a
  destination as the specification words it: the candidates are the desired name (for a
  conversion the name with \<open>.jpg\<close>), then the stem with the counter 1, 2, ... before the
  suffix of the source (before \<open>.jpg\<close> for a conversion); each is checked for a file
  and, where one exists, for the digest of the source; the result is the first candidate
  that is unused, or that holds the content of the source (the duplicate case). The
  counter is an argument of the loop, 1 at every entry.
\<close>

theorem conflict_resolution_takes_first_free_name:
  assumes "\<And>p. exists_exn env p = None"
  shows "first_free (fs s) h (candidate tf filename (stem_of filename) (suffix_of filename))
           (fst (generic_resolve env s filename tf h)) \<and>
         first_free (fs s) h
           (candidate tf (with_suffix_name filename ''.jpg'') (stem_of filename) ''.jpg'')
           (fst (heic_resolve env s filename tf h))"
  using generic_resolve_first_free [OF assms] heic_resolve_first_free [OF assms]
  by blast

theorem conflict_resolution_takes_first_free_name_witness:
  "(\<forall>p. exists_exn quiet_env p = None) \<and>
   fst (generic_resolve quiet_env (initial_state occupied_2020) ''img.jpg'' year_2020 (Some ''cccc''))
     = Free (joinpath year_2020 ''img_2.jpg'') \<and>
   first_free occupied_2020 (Some ''cccc'') (candidate year_2020 ''img.jpg'' ''img'' ''.jpg'')
     (Free (joinpath year_2020 ''img_2.jpg''))"
proof -
  have quiet: "exists_exn quiet_env p = None" for p
    by (simp add: quiet_env_def)
  have run: "fst (generic_resolve quiet_env (initial_state occupied_2020) ''img.jpg'' year_2020
      (Some ''cccc'')) = Free (joinpath year_2020 ''img_2.jpg'')"
    by (simp add: generic_resolve_def conflict_loop.simps quiet_env_def initial_state_def
        occupied_2020_def year_2020_def joinpath_def path_exists_def calculate_hash_def
        file_with_def truthy_def new_name_def stem_of_def suffix_of_def digit_char_def Let_def)
  have names: "stem_of ''img.jpg'' = ''img''" "suffix_of ''img.jpg'' = ''.jpg''"
    by (simp_all add: stem_of_def suffix_of_def)
  have state: "fs (initial_state occupied_2020) = occupied_2020"
    by (simp add: initial_state_def)
  from conflict_resolution_takes_first_free_name [of quiet_env "initial_state occupied_2020"
      "Some ''cccc''" year_2020 "''img.jpg''", OF quiet]
  show ?thesis
    unfolding run names state using quiet run by blast
qed

lemma conflict_loop_skips_unavailable:
  assumes "path_exists env (fs s) dest = Inr True"
      and "fst (calculate_hash (fs s) dest) = None"
  shows "conflict_loop env s tf stem ext h dest c
           = conflict_loop env (emit [Log ERROR, Log WARNING] s) tf stem ext h
               (joinpath tf (new_name stem c ext)) (c + 1) \<and>
         fst (conflict_loop env s tf stem ext h dest c) \<noteq> Matched dest \<and>
         fs (snd (conflict_loop env s tf stem ext h dest c)) = fs s"
proof -
  from assms(2) have nomatch: "\<not> hash_matches (fs s) h dest"
    by (simp add: hash_matches_def truthy_def)
  have "fst (conflict_loop env s tf stem ext h dest c) \<noteq> Matched dest"
    using conflict_loop_matched [of env s tf stem ext h dest c dest] nomatch by blast
  moreover have "conflict_loop env s tf stem ext h dest c
      = conflict_loop env (emit [Log ERROR, Log WARNING] s) tf stem ext h
          (joinpath tf (new_name stem c ext)) (c + 1)"
    using conflict_loop_rename [OF assms(1) nomatch, of tf stem ext c]
    by (simp add: calculate_hash_unavailable [OF assms(2)])
  ultimately show ?thesis
    by (simp add: conflict_loop_fields)
qed

section \<open>The run counters\<close>

lemma str_path_snoc: "p \<noteq> [] \<Longrightarrow> str_path (p @ [n]) = str_path p @ ''/'' @ n"
  by (induction p rule: str_path.induct) auto

lemma year_folder_is_counted:
  assumes "length y = 4"
  shows "\<not> prefix (str_path (NO_DATE_DIR sd)) (str_path (joinpath (DEST_DIR sd) y))"
    and "joinpath (DEST_DIR sd) y \<noteq> ERROR_DIR sd"
proof -
  have "\<not> prefix ''no_date'' y"
    using assms by (auto simp: prefix_def)
  moreover have "str_path ((sd @ [''sorted_photos'']) @ [n])
      = str_path (sd @ [''sorted_photos'']) @ ''/'' @ n" for n
    by (rule str_path_snoc) simp
  ultimately show "\<not> prefix (str_path (NO_DATE_DIR sd)) (str_path (joinpath (DEST_DIR sd) y))"
    unfolding NO_DATE_DIR_def DEST_DIR_def joinpath_def by simp
  show "joinpath (DEST_DIR sd) y \<noteq> ERROR_DIR sd"
    using assms by (auto simp: ERROR_DIR_def joinpath_def)
qed

lemma year_of_tag_length: "year_of_tag v = Some y \<Longrightarrow> length y = 4"
  by (auto simp: year_of_tag_def split: option.splits exif_value.splits if_splits)

lemma get_date_taken_result:
  "fst (get_date_taken file_ext beh) = Some y \<Longrightarrow> y = ''error'' \<or> length y = 4"
  by (auto simp: get_date_taken_def date_handler_def Let_def
      split: if_splits decode_behaviour.splits exn.splits option.splits
      dest: year_of_tag_length)

lemma total_count_emit [simp]: "total_count (emit evs s) = total_count s"
  by (simp add: total_count_def)

lemma total_count_conflict_loop [simp]:
  "total_count (snd (conflict_loop env s tf stem ext h dest c)) = total_count s"
  by (simp add: total_count_def conflict_loop_fields)

lemma emit_update [simp]:
  "(emit evs s)\<lparr>moved_count := v0\<rparr> = emit evs (s\<lparr>moved_count := v0\<rparr>)"
  "(emit evs s)\<lparr>video_moved_count := v1\<rparr> = emit evs (s\<lparr>video_moved_count := v1\<rparr>)"
  "(emit evs s)\<lparr>heic_converted_count := v2\<rparr> = emit evs (s\<lparr>heic_converted_count := v2\<rparr>)"
  "(emit evs s)\<lparr>no_date_count := v3\<rparr> = emit evs (s\<lparr>no_date_count := v3\<rparr>)"
  "(emit evs s)\<lparr>archive_moved_count := v4\<rparr> = emit evs (s\<lparr>archive_moved_count := v4\<rparr>)"
  "(emit evs s)\<lparr>deleted_non_media_count := v5\<rparr> = emit evs (s\<lparr>deleted_non_media_count := v5\<rparr>)"
  "(emit evs s)\<lparr>error_count := v6\<rparr> = emit evs (s\<lparr>error_count := v6\<rparr>)"
  "(emit evs s)\<lparr>skipped_count := v7\<rparr> = emit evs (s\<lparr>skipped_count := v7\<rparr>)"
  "(emit evs s)\<lparr>duplicate_deleted_count := v8\<rparr> = emit evs (s\<lparr>duplicate_deleted_count := v8\<rparr>)"
  "(emit evs s)\<lparr>hashes_in_destination := v9\<rparr> = emit evs (s\<lparr>hashes_in_destination := v9\<rparr>)"
  "(emit evs s)\<lparr>fs := v10\<rparr> = emit evs (s\<lparr>fs := v10\<rparr>)"
  by (simp_all add: emit_def)

lemma total_count_incr [simp]:
  "total_count (s\<lparr>moved_count := Suc (moved_count s)\<rparr>) = Suc (total_count s)"
  "total_count (s\<lparr>video_moved_count := Suc (video_moved_count s)\<rparr>) = Suc (total_count s)"
  "total_count (s\<lparr>heic_converted_count := Suc (heic_converted_count s)\<rparr>) = Suc (total_count s)"
  "total_count (s\<lparr>no_date_count := Suc (no_date_count s)\<rparr>) = Suc (total_count s)"
  "total_count (s\<lparr>archive_moved_count := Suc (archive_moved_count s)\<rparr>) = Suc (total_count s)"
  "total_count (s\<lparr>deleted_non_media_count := Suc (deleted_non_media_count s)\<rparr>) = Suc (total_count s)"
  "total_count (s\<lparr>error_count := Suc (error_count s)\<rparr>) = Suc (total_count s)"
  "total_count (s\<lparr>skipped_count := Suc (skipped_count s)\<rparr>) = Suc (total_count s)"
  "total_count (s\<lparr>duplicate_deleted_count := Suc (duplicate_deleted_count s)\<rparr>) = Suc (total_count s)"
  by (simp_all add: total_count_def)

lemma delete_duplicate_total:
  "total_count s \<le> total_count (snd (delete_duplicate env s p))"
  "fst (delete_duplicate env s p) = None \<Longrightarrow>
     total_count (snd (delete_duplicate env s p)) = total_count s + 1"
  by (auto simp: delete_duplicate_def total_count_def split: sum.splits)

lemma count_move_total:
  "total_count s \<le> total_count (count_move sd tf (\<lambda>s. s\<lparr>moved_count := moved_count s + 1\<rparr>) s)"
  "total_count s \<le> total_count (count_move sd tf (\<lambda>s. s\<lparr>video_moved_count := video_moved_count s + 1\<rparr>) s)"
  by (auto simp: count_move_def total_count_def)

lemma count_move_year:
  "\<not> prefix (str_path (NO_DATE_DIR sd)) (str_path tf) \<Longrightarrow> tf \<noteq> ERROR_DIR sd \<Longrightarrow>
     total_count (count_move sd tf (\<lambda>s. s\<lparr>moved_count := moved_count s + 1\<rparr>) s) = total_count s + 1"
  by (auto simp: count_move_def total_count_def)

lemma total_count_hashes [simp]:
  "total_count (s\<lparr>hashes_in_destination := m\<rparr>) = total_count s"
  "total_count (s\<lparr>fs := f\<rparr>) = total_count s"
  by (simp_all add: total_count_def)

lemma generic_move_total:
  "total_count s \<le> total_count (snd (generic_move sd env s src filename mt tf h))"
proof (cases "generic_resolve env s filename tf h")
  case (Pair r s1)
  then have s1: "total_count s1 = total_count s"
    using total_count_conflict_loop [of env s tf "stem_of filename" "suffix_of filename" h
        "joinpath tf filename" 1]
    by (simp add: generic_resolve_def)
  show ?thesis
  proof (cases r)
    case (Raised e)
    with Pair s1 show ?thesis by (simp add: generic_move_def)
  next
    case (Matched p)
    with Pair s1 show ?thesis
      using delete_duplicate_total(1) [where s = s1 and env = env and p = src] by (simp add: generic_move_def)
  next
    case (Free d)
    with Pair s1 show ?thesis
      using count_move_total [of "emit [Log INFO] (s1\<lparr>fs := x\<rparr>)" sd tf for x]
      by (auto simp: generic_move_def Let_def split: sum.splits)
  qed
qed


lemma generic_move_counts:
  assumes "fst (generic_move sd env s src filename media_image tf h) = None"
      and "\<not> prefix (str_path (NO_DATE_DIR sd)) (str_path tf)" and "tf \<noteq> ERROR_DIR sd"
  shows "total_count s + 1 \<le> total_count (snd (generic_move sd env s src filename media_image tf h))"
proof (cases "generic_resolve env s filename tf h")
  case (Pair r s1)
  then have s1: "total_count s1 = total_count s"
    using total_count_conflict_loop [of env s tf "stem_of filename" "suffix_of filename" h
        "joinpath tf filename" 1]
    by (simp add: generic_resolve_def)
  show ?thesis
  proof (cases r)
    case (Raised e)
    with Pair assms(1) show ?thesis by (simp add: generic_move_def)
  next
    case (Matched p)
    with Pair s1 assms(1) show ?thesis
      using delete_duplicate_total(2) [where s = s1 and env = env and p = src] by (simp add: generic_move_def)
  next
    case (Free d)
    with Pair s1 assms show ?thesis
      using count_move_year [OF assms(2,3), of "emit [Log INFO] (s1\<lparr>fs := x\<rparr>)" for x]
      by (auto simp: generic_move_def Let_def split: sum.splits)
  qed
qed

lemma heic_try_total:
  "total_count s \<le> total_count (snd (heic_try sd env s src dest tf h))"
  "fst (heic_try sd env s src dest tf h) = None \<Longrightarrow>
     total_count s + 1 \<le> total_count (snd (heic_try sd env s src dest tf h))"
  by (auto simp: heic_try_def Let_def count_move_def total_count_def
      split: sum.splits prod.splits option.splits if_splits)

lemma heic_convert_raised:
  "heic_resolve env s filename tf h = (Raised e, s1) \<Longrightarrow>
     heic_convert sd env s src filename tf h = (Some e, s1)"
  by (simp add: heic_convert_def)

lemma heic_convert_matched:
  "heic_resolve env s filename tf h = (Matched p, s1) \<Longrightarrow>
     heic_convert sd env s src filename tf h = delete_duplicate env s1 src"
  by (simp add: heic_convert_def)

lemma heic_convert_converted:
  "heic_resolve env s filename tf h = (Free d, s1) \<Longrightarrow>
   heic_try sd env s1 src d tf h = (None, s2) \<Longrightarrow>
     heic_convert sd env s src filename tf h = (None, s2)"
  by (simp add: heic_convert_def)

lemma heic_convert_failed:
  "heic_resolve env s filename tf h = (Free d, s1) \<Longrightarrow>
   heic_try sd env s1 src d tf h = (Some e, s2) \<Longrightarrow>
     heic_convert sd env s src filename tf h =
       (case shutil_move env (fs s2) src (joinpath (ERROR_DIR sd) filename) of
          Inr fs' \<Rightarrow>
            (None, emit [Log INFO]
               ((emit [Log ERROR] s2)\<lparr>error_count := error_count s2 + 1, fs := fs'\<rparr>))
        | Inl move_e \<Rightarrow>
            (None, emit [Log ERROR] ((emit [Log ERROR] s2)\<lparr>error_count := error_count s2 + 1\<rparr>)))"
  by (simp add: heic_convert_def Let_def split: sum.splits)


lemma heic_convert_total:
  "total_count s \<le> total_count (snd (heic_convert sd env s src filename tf h))"
  "fst (heic_convert sd env s src filename tf h) = None \<Longrightarrow>
     total_count s + 1 \<le> total_count (snd (heic_convert sd env s src filename tf h))"
proof -
  obtain r s1 where res: "heic_resolve env s filename tf h = (r, s1)"
    by (cases "heic_resolve env s filename tf h")
  then have s1: "total_count s1 = total_count s"
    using total_count_conflict_loop [of env s tf "stem_of filename" "''.jpg''" h
        "joinpath tf (with_suffix_name filename ''.jpg'')" 1]
    by (simp add: heic_resolve_def)
  have "total_count s \<le> total_count (snd (heic_convert sd env s src filename tf h)) \<and>
      (fst (heic_convert sd env s src filename tf h) = None \<longrightarrow>
       total_count s + 1 \<le> total_count (snd (heic_convert sd env s src filename tf h)))"
  proof (cases r)
    case (Raised e)
    with res s1 show ?thesis by (simp add: heic_convert_raised)
  next
    case (Matched p)
    with res s1 show ?thesis
      using delete_duplicate_total [where s = s1 and env = env and p = src]
      by (simp add: heic_convert_matched)
  next
    case (Free d)
    obtain o2 s2 where tried: "heic_try sd env s1 src d tf h = (o2, s2)"
      by (cases "heic_try sd env s1 src d tf h")
    have s2: "total_count s1 \<le> total_count s2"
      using heic_try_total(1) [where s = s1 and sd = sd and env = env and src = src and dest = d and tf = tf and h = h] tried by simp
    show ?thesis
    proof (cases o2)
      case None
      then have "total_count s1 + 1 \<le> total_count s2"
        using heic_try_total(2) [where s = s1 and sd = sd and env = env and src = src and dest = d and tf = tf and h = h] tried by simp
      with res Free tried None s1 show ?thesis
        by (simp add: heic_convert_converted)
    next
      case (Some e)
      from res Free tried Some s1 s2 show ?thesis
        by (simp add: heic_convert_failed split: sum.splits)
    qed
  qed
  then show "total_count s \<le> total_count (snd (heic_convert sd env s src filename tf h))"
    and "fst (heic_convert sd env s src filename tf h) = None \<Longrightarrow>
     total_count s + 1 \<le> total_count (snd (heic_convert sd env s src filename tf h))"
    by blast+
qed


lemma place_file_mkdir_fails:
  "mkdir_exn env tf = Some e \<Longrightarrow>
     place_file sd env s src filename file_ext mt (Some tf) = (Some e, s)"
  by (simp add: place_file_def)

lemma place_file_hash_fails:
  assumes "mkdir_exn env tf = None" and "fst (calculate_hash (fs s) src) = None"
  shows "place_file sd env s src filename file_ext mt (Some tf) =
     (case mkdir_exn env (ERROR_DIR sd) of
        Some e \<Rightarrow> (Some e, emit (snd (calculate_hash (fs s) src) @ [Log WARNING]) s)
      | None \<Rightarrow>
          convert_or_move sd env ((emit (snd (calculate_hash (fs s) src) @ [Log WARNING]) s)
                        \<lparr>error_count := error_count s + 1\<rparr>)
            src filename file_ext mt (ERROR_DIR sd) None)"
  using assms by (simp add: place_file_def Let_def convert_or_move_def emit_emit split: option.splits)

lemma place_file_duplicate:
  assumes "mkdir_exn env tf = None" and "fst (calculate_hash (fs s) src) = Some h"
      and "Some h \<in> recorded (hashes_in_destination s) (str_path tf)"
  shows "place_file sd env s src filename file_ext mt (Some tf) =
     delete_duplicate env
       (emit [Log WARNING] ((emit (snd (calculate_hash (fs s) src)) s)
          \<lparr>hashes_in_destination := (hashes_in_destination s)
              (str_path tf \<mapsto> recorded (hashes_in_destination s) (str_path tf))\<rparr>))
       src"
  using assms by (simp add: place_file_def Let_def)

lemma place_file_fresh:
  assumes "mkdir_exn env tf = None" and "fst (calculate_hash (fs s) src) = Some h"
      and "Some h \<notin> recorded (hashes_in_destination s) (str_path tf)"
  shows "place_file sd env s src filename file_ext mt (Some tf) =
     convert_or_move sd env
       ((emit (snd (calculate_hash (fs s) src)) s)
          \<lparr>hashes_in_destination := (hashes_in_destination s)
              (str_path tf \<mapsto> recorded (hashes_in_destination s) (str_path tf))\<rparr>)
       src filename file_ext mt tf (Some h)"
  using assms by (simp add: place_file_def Let_def convert_or_move_def)

lemma convert_or_move_total:
  "total_count s \<le> total_count (snd (convert_or_move sd env s src filename file_ext mt tf h))"
  by (simp add: convert_or_move_def heic_convert_total(1) generic_move_total)

lemma convert_or_move_counts:
  assumes "fst (convert_or_move sd env s src filename file_ext media_image tf h) = None"
      and "\<not> prefix (str_path (NO_DATE_DIR sd)) (str_path tf)" and "tf \<noteq> ERROR_DIR sd"
  shows "total_count s + 1 \<le> total_count (snd (convert_or_move sd env s src filename file_ext media_image tf h))"
  using assms heic_convert_total(2) [where s = s and sd = sd and env = env and src = src
      and filename = filename and tf = tf and h = h]
    generic_move_counts [where s = s and sd = sd and env = env and src = src
      and filename = filename and tf = tf and h = h]
  by (auto simp: convert_or_move_def)

lemma place_file_total:
  "total_count s \<le> total_count (snd (place_file sd env s src filename file_ext mt target))"
proof (cases target)
  case None
  then show ?thesis by (simp add: place_file_def)
next
  case (Some tf)
  show ?thesis
  proof (cases "mkdir_exn env tf")
    case (Some e)
    with \<open>target = Some tf\<close> show ?thesis by (simp add: place_file_mkdir_fails)
  next
    case None
    note mk = this
    show ?thesis
    proof (cases "fst (calculate_hash (fs s) src)")
      case None
      show ?thesis
        using convert_or_move_total [where sd = sd and env = env and src = src and filename = filename
            and file_ext = file_ext and mt = mt and tf = "ERROR_DIR sd" and h = None
            and s = "(emit (snd (calculate_hash (fs s) src) @ [Log WARNING]) s)
                        \<lparr>error_count := error_count s + 1\<rparr>"]
        by (simp add: \<open>target = Some tf\<close> place_file_hash_fails [OF mk None] split: option.splits)
    next
      case (Some h)
      show ?thesis
      proof (cases "Some h \<in> recorded (hashes_in_destination s) (str_path tf)")
        case True
        show ?thesis
          using delete_duplicate_total(1) [where env = env and p = src and
              s = "emit [Log WARNING] ((emit (snd (calculate_hash (fs s) src)) s)
                \<lparr>hashes_in_destination := (hashes_in_destination s)
                    (str_path tf \<mapsto> recorded (hashes_in_destination s) (str_path tf))\<rparr>)"]
          by (simp add: \<open>target = Some tf\<close> place_file_duplicate [OF mk Some True])
      next
        case False
        show ?thesis
          using convert_or_move_total [where sd = sd and env = env and src = src and filename = filename
              and file_ext = file_ext and mt = mt and tf = tf and h = "Some h"
              and s = "(emit (snd (calculate_hash (fs s) src)) s)
                \<lparr>hashes_in_destination := (hashes_in_destination s)
                    (str_path tf \<mapsto> recorded (hashes_in_destination s) (str_path tf))\<rparr>"]
          by (simp add: \<open>target = Some tf\<close> place_file_fresh [OF mk Some False])
      qed
    qed
  qed
qed

lemma place_file_counts:
  assumes "fst (place_file sd env s src filename file_ext media_image (Some tf)) = None"
      and "\<not> prefix (str_path (NO_DATE_DIR sd)) (str_path tf)" and "tf \<noteq> ERROR_DIR sd"
  shows "total_count s + 1
     \<le> total_count (snd (place_file sd env s src filename file_ext media_image (Some tf)))"
proof (cases "mkdir_exn env tf")
  case (Some e)
  with assms(1) show ?thesis by (simp add: place_file_mkdir_fails)
next
  case None
  note mk = this
  show ?thesis
  proof (cases "fst (calculate_hash (fs s) src)")
    case None
    show ?thesis
      using convert_or_move_total [where sd = sd and env = env and src = src and filename = filename
          and file_ext = file_ext and mt = media_image and tf = "ERROR_DIR sd" and h = None
          and s = "(emit (snd (calculate_hash (fs s) src) @ [Log WARNING]) s)
                      \<lparr>error_count := error_count s + 1\<rparr>"] assms(1)
      by (simp add: place_file_hash_fails [OF mk None] split: option.splits)
  next
    case (Some h)
    show ?thesis
    proof (cases "Some h \<in> recorded (hashes_in_destination s) (str_path tf)")
      case True
      show ?thesis
        using delete_duplicate_total(2) [where env = env and p = src and
            s = "emit [Log WARNING] ((emit (snd (calculate_hash (fs s) src)) s)
              \<lparr>hashes_in_destination := (hashes_in_destination s)
                  (str_path tf \<mapsto> recorded (hashes_in_destination s) (str_path tf))\<rparr>)"] assms(1)
        by (simp add: place_file_duplicate [OF mk Some True])
    next
      case False
      show ?thesis
        using convert_or_move_counts [where sd = sd and env = env and src = src and filename = filename
            and file_ext = file_ext and tf = tf and h = "Some h"
            and s = "(emit (snd (calculate_hash (fs s) src)) s)
              \<lparr>hashes_in_destination := (hashes_in_destination s)
                  (str_path tf \<mapsto> recorded (hashes_in_destination s) (str_path tf))\<rparr>"]
          assms
        by (simp add: place_file_fresh [OF mk Some False])
    qed
  qed
qed


lemma no_date_target_total:
  "total_count (snd (no_date_target sd env s)) = total_count s + 1"
  by (simp add: no_date_target_def Let_def total_count_def)

lemma determine_target_total:
  "total_count s \<le> total_count (snd (determine_target sd env s mt yos tf0))"
  by (auto simp: determine_target_def no_date_target_total split: option.splits)

lemma determine_target_media:
  assumes "mt = media_image \<or> mt = media_video"
  shows "total_count (snd (determine_target sd env s mt yos tf0)) = total_count s + 1 \<or>
         (\<exists>y. yos = Some y \<and> y \<noteq> ''error'' \<and>
              determine_target sd env s mt yos tf0
                = (Some (joinpath (DEST_DIR sd) y), emit [Log INFO] s))"
  using assms
  by (auto simp: determine_target_def no_date_target_total split: option.splits)

lemma process_body_skipped:
  "DEST_DIR sd \<in> set (parents (joinpath root_dir filename)) \<Longrightarrow>
     process_body sd env s root_dir filename
       = (None, emit [Log INFO] (s\<lparr>skipped_count := skipped_count s + 1\<rparr>))"
  by (simp add: process_body_def)

lemma process_body_image:
  "DEST_DIR sd \<notin> set (parents (joinpath root_dir filename)) \<Longrightarrow>
   lower (suffix_of filename) \<in> IMAGE_EXTENSIONS \<Longrightarrow>
     process_body sd env s root_dir filename
       = locate_and_place sd env
           (emit (snd (get_date_taken (lower (suffix_of filename)) (decode env))) s)
           (joinpath root_dir filename) filename (lower (suffix_of filename)) media_image
           (fst (get_date_taken (lower (suffix_of filename)) (decode env))) None"
  by (simp add: process_body_def Let_def)

lemma process_body_video:
  "DEST_DIR sd \<notin> set (parents (joinpath root_dir filename)) \<Longrightarrow>
   lower (suffix_of filename) \<notin> IMAGE_EXTENSIONS \<Longrightarrow>
   lower (suffix_of filename) \<in> VIDEO_EXTENSIONS \<Longrightarrow>
     process_body sd env s root_dir filename
       = locate_and_place sd env s (joinpath root_dir filename) filename
           (lower (suffix_of filename)) media_video None None"
  by (simp add: process_body_def Let_def)

lemma process_body_archive:
  "DEST_DIR sd \<notin> set (parents (joinpath root_dir filename)) \<Longrightarrow>
   lower (suffix_of filename) \<notin> IMAGE_EXTENSIONS \<Longrightarrow>
   lower (suffix_of filename) \<notin> VIDEO_EXTENSIONS \<Longrightarrow>
   lower (suffix_of filename) \<in> ARCHIVE_EXTENSIONS \<Longrightarrow>
     process_body sd env s root_dir filename
       = locate_and_place sd env
           (emit [Log INFO] (s\<lparr>archive_moved_count := archive_moved_count s + 1\<rparr>))
           (joinpath root_dir filename) filename (lower (suffix_of filename)) media_archive
           None (Some (ARCHIVES_DIR sd))"
  by (simp add: process_body_def Let_def)

lemma process_body_other:
  "DEST_DIR sd \<notin> set (parents (joinpath root_dir filename)) \<Longrightarrow>
   lower (suffix_of filename) \<notin> IMAGE_EXTENSIONS \<Longrightarrow>
   lower (suffix_of filename) \<notin> VIDEO_EXTENSIONS \<Longrightarrow>
   lower (suffix_of filename) \<notin> ARCHIVE_EXTENSIONS \<Longrightarrow>
     process_body sd env s root_dir filename
       = (case os_remove env (fs s) (joinpath root_dir filename) of
            Inr fs' \<Rightarrow>
              (None, emit [Log INFO]
                 (s\<lparr>fs := fs', deleted_non_media_count := deleted_non_media_count s + 1\<rparr>))
          | Inl e \<Rightarrow>
              if is_OSError e
              then (None, emit [Log ERROR] (s\<lparr>error_count := error_count s + 1\<rparr>))
              else (Some e, s))"
  by (simp add: process_body_def Let_def)

lemma process_body_cases [consumes 0, case_names skipped image video archive other]:
  assumes "DEST_DIR sd \<in> set (parents (joinpath root_dir filename)) \<Longrightarrow> P"
      and "DEST_DIR sd \<notin> set (parents (joinpath root_dir filename)) \<Longrightarrow>
           lower (suffix_of filename) \<in> IMAGE_EXTENSIONS \<Longrightarrow> P"
      and "DEST_DIR sd \<notin> set (parents (joinpath root_dir filename)) \<Longrightarrow>
           lower (suffix_of filename) \<notin> IMAGE_EXTENSIONS \<Longrightarrow>
           lower (suffix_of filename) \<in> VIDEO_EXTENSIONS \<Longrightarrow> P"
      and "DEST_DIR sd \<notin> set (parents (joinpath root_dir filename)) \<Longrightarrow>
           lower (suffix_of filename) \<notin> IMAGE_EXTENSIONS \<Longrightarrow>
           lower (suffix_of filename) \<notin> VIDEO_EXTENSIONS \<Longrightarrow>
           lower (suffix_of filename) \<in> ARCHIVE_EXTENSIONS \<Longrightarrow> P"
      and "DEST_DIR sd \<notin> set (parents (joinpath root_dir filename)) \<Longrightarrow>
           lower (suffix_of filename) \<notin> IMAGE_EXTENSIONS \<Longrightarrow>
           lower (suffix_of filename) \<notin> VIDEO_EXTENSIONS \<Longrightarrow>
           lower (suffix_of filename) \<notin> ARCHIVE_EXTENSIONS \<Longrightarrow> P"
  shows P
  using assms by blast

lemma locate_and_place_total:
  "total_count s \<le> total_count (snd (locate_and_place sd env s src filename ext mt yos tf0))"
  using determine_target_total [of s sd env mt yos tf0]
    place_file_total [of "snd (determine_target sd env s mt yos tf0)" sd env src filename ext mt
      "fst (determine_target sd env s mt yos tf0)"]
  by (simp add: locate_and_place_def Let_def)

lemma locate_and_place_counts:
  assumes "fst (locate_and_place sd env s src filename ext mt yos tf0) = None"
      and "mt = media_video \<and> yos = None \<or>
           mt = media_image \<and> (\<forall>y. yos = Some y \<longrightarrow> y = ''error'' \<or> length y = 4)"
  shows "total_count s + 1
     \<le> total_count (snd (locate_and_place sd env s src filename ext mt yos tf0))"
proof -
  from assms(2) have media: "mt = media_image \<or> mt = media_video" by blast
  from determine_target_media [OF media, of sd env s yos tf0]
  show ?thesis
  proof
    assume "total_count (snd (determine_target sd env s mt yos tf0)) = total_count s + 1"
    then show ?thesis
      using place_file_total [of "snd (determine_target sd env s mt yos tf0)" sd env src filename
          ext mt "fst (determine_target sd env s mt yos tf0)"]
      by (simp add: locate_and_place_def Let_def)
  next
    assume "\<exists>y. yos = Some y \<and> y \<noteq> ''error'' \<and>
      determine_target sd env s mt yos tf0 = (Some (joinpath (DEST_DIR sd) y), emit [Log INFO] s)"
    then obtain y where y: "yos = Some y" "y \<noteq> ''error''"
        and det: "determine_target sd env s mt yos tf0
          = (Some (joinpath (DEST_DIR sd) y), emit [Log INFO] s)"
      by blast
    from y assms(2) have image: "mt = media_image" and len: "length y = 4"
      by (auto simp: determine_target_def)
    from assms(1) det image
    have "fst (place_file sd env (emit [Log INFO] s) src filename ext media_image
        (Some (joinpath (DEST_DIR sd) y))) = None"
      by (simp add: locate_and_place_def Let_def)
    from place_file_counts [OF this year_folder_is_counted [OF len]]
    show ?thesis
      using det image by (simp add: locate_and_place_def Let_def)
  qed
qed

lemma process_body_total:
  "total_count s \<le> total_count (snd (process_body sd env s root_dir filename))"
proof (cases rule: process_body_cases [of sd root_dir filename])
  case skipped
  then show ?thesis by (simp add: process_body_skipped)
next
  case image
  then show ?thesis
    using locate_and_place_total [of
        "emit (snd (get_date_taken (lower (suffix_of filename)) (decode env))) s" sd env]
    by (simp add: process_body_image)
next
  case video
  then show ?thesis by (simp add: process_body_video locate_and_place_total)
next
  case archive
  then show ?thesis
    using locate_and_place_total [of
        "emit [Log INFO] (s\<lparr>archive_moved_count := archive_moved_count s + 1\<rparr>)" sd env]
    by (simp add: process_body_archive) (meson Suc_leD)
next
  case other
  then show ?thesis
    by (auto simp: process_body_other total_count_def split: sum.splits)
qed

lemma process_body_counts:
  assumes "fst (process_body sd env s root_dir filename) = None"
  shows "total_count s + 1 \<le> total_count (snd (process_body sd env s root_dir filename))"
proof (cases rule: process_body_cases [of sd root_dir filename])
  case skipped
  then show ?thesis by (simp add: process_body_skipped)
next
  case image
  have "\<forall>y. fst (get_date_taken (lower (suffix_of filename)) (decode env)) = Some y
      \<longrightarrow> y = ''error'' \<or> length y = 4"
    using get_date_taken_result by blast
  with image assms show ?thesis
    using locate_and_place_counts [where mt = media_image and sd = sd and env = env
        and s = "emit (snd (get_date_taken (lower (suffix_of filename)) (decode env))) s"
        and yos = "fst (get_date_taken (lower (suffix_of filename)) (decode env))"]
    by (simp add: process_body_image)
next
  case video
  with assms show ?thesis
    using locate_and_place_counts [where mt = media_video and sd = sd and env = env and s = s
        and yos = None]
    by (simp add: process_body_video)
next
  case archive
  then show ?thesis
    using locate_and_place_total [of
        "emit [Log INFO] (s\<lparr>archive_moved_count := archive_moved_count s + 1\<rparr>)" sd env]
    by (simp add: process_body_archive)
next
  case other
  with assms show ?thesis
    by (auto simp: process_body_other total_count_def split: sum.splits if_splits)
qed


lemma process_file_counts:
  "total_count s + 1 \<le> total_count (snd (process_file sd env s root_dir filename))"
proof (cases "process_body sd env s root_dir filename")
  case (Pair o1 s1)
  have mono: "total_count s \<le> total_count s1"
    using process_body_total [of s sd env root_dir filename] Pair by simp
  show ?thesis
  proof (cases o1)
    case None
    then show ?thesis
      using process_body_counts [of sd env s root_dir filename] Pair
      by (simp add: process_file_def)
  next
    case (Some e)
    with Pair mono show ?thesis
      by (auto simp: process_file_def Let_def split: sum.splits)
  qed
qed

lemma walk_counts:
  "fst (walk sd s items) = None \<Longrightarrow>
     total_count s + length items \<le> total_count (snd (walk sd s items))"
proof (induction items arbitrary: s)
  case Nil
  then show ?case by simp
next
  case (Cons item items)
  obtain root_dir filename env where item: "item = (root_dir, filename, env)"
    by (cases item)
  obtain o1 s1 where step: "process_file sd env s root_dir filename = (o1, s1)"
    by (cases "process_file sd env s root_dir filename")
  have one: "total_count s + 1 \<le> total_count s1"
    using process_file_counts [of s sd env root_dir filename] step by simp
  show ?case
  proof (cases o1)
    case None
    with Cons.prems item step have "fst (walk sd s1 items) = None" by simp
    from Cons.IH [OF this] one None item step show ?thesis by simp
  next
    case (Some e)
    with Cons.prems item step show ?thesis by simp
  qed
qed

text \<open>
  C3. Every file the loop takes up increments at least one run counter, whatever its
  calls do, so after a walk that was not cut short the counters sum to at least the
  number of files: none is dropped. The sum is not the number of files: a file can
  increment several counters.
\<close>

theorem every_file_is_counted:
  "total_count s + 1 \<le> total_count (snd (process_file sd env s root_dir filename)) \<and>
   (fst (walk sd s items) = None \<longrightarrow>
      total_count s + length items \<le> total_count (snd (walk sd s items)))"
  using process_file_counts [of s sd env root_dir filename] walk_counts [of sd s items]
  by blast

theorem every_file_is_counted_witness:
  "fst (walk [] (initial_state one_heic) [([''unsorted_photos''], ''a.heic'', heic_2019)]) = None \<and>
   total_count (initial_state one_heic) + length [([''unsorted_photos''], ''a.heic'', heic_2019)]
     \<le> total_count (snd (walk [] (initial_state one_heic) [([''unsorted_photos''], ''a.heic'', heic_2019)]))"
proof -
  have "fst (walk [] (initial_state one_heic) [([''unsorted_photos''], ''a.heic'', heic_2019)]) = None"
    by (simp add: model_defs example_defs heic_2019_def one_heic_def)
  with every_file_is_counted [of "initial_state one_heic" "[]" heic_2019 "[''unsorted_photos'']"
      "''a.heic''" "[([''unsorted_photos''], ''a.heic'', heic_2019)]"]
  show ?thesis by blast
qed

text \<open>
  One HEIC file with a capture year: it is converted and counted both as converted
  and as moved to a year folder.
\<close>

theorem converted_heic_is_counted_twice_counterexample:
  "heic_converted_count (snd (walk [] (initial_state one_heic) [([''unsorted_photos''], ''a.heic'', heic_2019)])) = 1 \<and>
   moved_count (snd (walk [] (initial_state one_heic) [([''unsorted_photos''], ''a.heic'', heic_2019)])) = 1 \<and>
   total_count (snd (walk [] (initial_state one_heic) [([''unsorted_photos''], ''a.heic'', heic_2019)])) = 2 \<and>
   fmdom' (fs (snd (walk [] (initial_state one_heic) [([''unsorted_photos''], ''a.heic'', heic_2019)])))
     = {[''sorted_photos'', ''2019'', ''a.jpg'']}"
  by (auto simp: model_defs example_defs heic_2019_def one_heic_def total_count_def)

section \<open>Destination files that cannot be read\<close>

lemma generic_move_raised:
  "generic_resolve env s filename tf h = (Raised e, s1) \<Longrightarrow>
     generic_move sd env s src filename mt tf h = (Some e, s1)"
  by (simp add: generic_move_def)

lemma generic_move_matched:
  "generic_resolve env s filename tf h = (Matched p, s1) \<Longrightarrow>
     generic_move sd env s src filename mt tf h = delete_duplicate env s1 src"
  by (simp add: generic_move_def)

lemma generic_move_move_fails:
  "generic_resolve env s filename tf h = (Free d, s1) \<Longrightarrow>
   shutil_move env (fs s1) src d = Inl e \<Longrightarrow>
     generic_move sd env s src filename mt tf h = (Some e, s1)"
  by (simp add: generic_move_def)

lemma generic_move_moved:
  assumes "generic_resolve env s filename tf h = (Free d, s1)"
      and "shutil_move env (fs s1) src d = Inr fs'"
  shows "fst (generic_move sd env s src filename mt tf h) = None"
    and "fs (snd (generic_move sd env s src filename mt tf h)) = fs'"
  using assms by (simp_all add: generic_move_def Let_def count_move_def)

lemma generic_resolve_fs: "fs (snd (generic_resolve env s filename tf h)) = fs s"
  by (simp add: generic_resolve_def conflict_loop_fields)

lemma heic_resolve_fs: "fs (snd (heic_resolve env s filename tf h)) = fs s"
  by (simp add: heic_resolve_def conflict_loop_fields)

lemma first_free_after_occupied:
  assumes "first_free fsys h cand r" and "occupied_by_other fsys h (cand 0)"
  shows "\<exists>n>0. (\<forall>k<n. occupied_by_other fsys h (cand k)) \<and>
           \<not> occupied_by_other fsys h (cand n) \<and>
           r = (if cand n \<in> fmdom' fsys then Matched (cand n) else Free (cand n))"
proof -
  from assms(1) obtain n where n: "\<forall>k<n. occupied_by_other fsys h (cand k)"
      "\<not> occupied_by_other fsys h (cand n)"
      "r = (if cand n \<in> fmdom' fsys then Matched (cand n) else Free (cand n))"
    unfolding first_free_def by blast
  with assms(2) have "n \<noteq> 0" by (cases n) auto
  with n show ?thesis by blast
qed

lemma unavailable_is_occupied:
  "p \<in> fmdom' fsys \<Longrightarrow> fst (calculate_hash fsys p) = None \<Longrightarrow> occupied_by_other fsys h p"
  by (simp add: occupied_by_other_def hash_matches_def truthy_def)


text \<open>What a generic move does once the desired name is occupied by other content.\<close>

lemma generic_move_after_occupied:
  assumes quiet: "\<And>p. exists_exn env p = None" "\<And>p. move_exn env p = None"
      and occ: "occupied_by_other (fs s) h (joinpath tf filename)"
      and src: "fmlookup (fs s) src = Some f"
  shows "\<exists>n>0.
           (\<forall>k<n. occupied_by_other (fs s) h
                     (candidate tf filename (stem_of filename) (suffix_of filename) k)) \<and>
           (if candidate tf filename (stem_of filename) (suffix_of filename) n \<in> fmdom' (fs s)
            then hash_matches (fs s) h
                   (candidate tf filename (stem_of filename) (suffix_of filename) n) \<and>
                 generic_move sd env s src filename mt tf h
                   = delete_duplicate env (snd (generic_resolve env s filename tf h)) src
            else fst (generic_move sd env s src filename mt tf h) = None \<and>
                 fs (snd (generic_move sd env s src filename mt tf h))
                   = fmupd (candidate tf filename (stem_of filename) (suffix_of filename) n) f
                       (fmdrop src (fs s)))"
proof -
  let ?C = "candidate tf filename (stem_of filename) (suffix_of filename)"
  obtain r s1 where res: "generic_resolve env s filename tf h = (r, s1)"
    by (cases "generic_resolve env s filename tf h")
  have s1: "fs s1 = fs s"
    using generic_resolve_fs [of env s filename tf h] res by simp
  have "occupied_by_other (fs s) h (?C 0)"
    using occ by (simp add: candidate_def)
  from first_free_after_occupied [OF generic_resolve_first_free [OF quiet(1)] this]
  obtain n where n: "n > 0" "\<forall>k<n. occupied_by_other (fs s) h (?C k)"
      "\<not> occupied_by_other (fs s) h (?C n)"
      "r = (if ?C n \<in> fmdom' (fs s) then Matched (?C n) else Free (?C n))"
    using res by auto
  show ?thesis
  proof (cases "?C n \<in> fmdom' (fs s)")
    case True
    with n(3) have "hash_matches (fs s) h (?C n)"
      by (simp add: occupied_by_other_def)
    moreover from True n(4) res
    have "generic_move sd env s src filename mt tf h
        = delete_duplicate env (snd (generic_resolve env s filename tf h)) src"
      by (simp add: generic_move_matched)
    ultimately show ?thesis using n(1,2) True by auto
  next
    case False
    with n(4) res have free: "generic_resolve env s filename tf h = (Free (?C n), s1)"
      by simp
    have mv: "shutil_move env (fs s1) src (?C n) = Inr (fmupd (?C n) f (fmdrop src (fs s)))"
      using src quiet(2) s1 by (simp add: shutil_move_def)
    from generic_move_moved [OF free mv] n(1,2) False show ?thesis by auto
  qed
qed


lemma heic_try_converted:
  assumes "fmlookup (fs s) src = Some f" and "convert env = Inr jpeg"
      and "remove_exn env = None" and "dest \<noteq> src"
  shows "fst (heic_try sd env s src dest tf h) = None"
    and "fs (snd (heic_try sd env s src dest tf h)) = fmdrop src (fmupd dest jpeg (fs s))"
  using assms
  by (simp_all add: heic_try_def image_convert_def os_remove_def Let_def count_move_def)

lemma heic_convert_after_occupied:
  assumes quiet: "\<And>p. exists_exn env p = None" "convert env = Inr jpeg" "remove_exn env = None"
      and occ: "occupied_by_other (fs s) h (joinpath tf (with_suffix_name filename ''.jpg''))"
      and src: "fmlookup (fs s) src = Some f"
  shows "\<exists>n>0.
           (\<forall>k<n. occupied_by_other (fs s) h
                     (candidate tf (with_suffix_name filename ''.jpg'') (stem_of filename) ''.jpg'' k)) \<and>
           (if candidate tf (with_suffix_name filename ''.jpg'') (stem_of filename) ''.jpg'' n
                 \<in> fmdom' (fs s)
            then hash_matches (fs s) h
                   (candidate tf (with_suffix_name filename ''.jpg'') (stem_of filename) ''.jpg'' n) \<and>
                 heic_convert sd env s src filename tf h
                   = delete_duplicate env (snd (heic_resolve env s filename tf h)) src
            else fst (heic_convert sd env s src filename tf h) = None \<and>
                 fs (snd (heic_convert sd env s src filename tf h))
                   = fmdrop src
                       (fmupd (candidate tf (with_suffix_name filename ''.jpg'')
                                 (stem_of filename) ''.jpg'' n) jpeg (fs s)))"
proof -
  let ?C = "candidate tf (with_suffix_name filename ''.jpg'') (stem_of filename) ''.jpg''"
  obtain r s1 where res: "heic_resolve env s filename tf h = (r, s1)"
    by (cases "heic_resolve env s filename tf h")
  have s1: "fs s1 = fs s"
    using heic_resolve_fs [of env s filename tf h] res by simp
  have "occupied_by_other (fs s) h (?C 0)"
    using occ by (simp add: candidate_def)
  from first_free_after_occupied [OF heic_resolve_first_free [OF quiet(1)] this]
  obtain n where n: "n > 0" "\<forall>k<n. occupied_by_other (fs s) h (?C k)"
      "\<not> occupied_by_other (fs s) h (?C n)"
      "r = (if ?C n \<in> fmdom' (fs s) then Matched (?C n) else Free (?C n))"
    using res by auto
  show ?thesis
  proof (cases "?C n \<in> fmdom' (fs s)")
    case True
    with n(3) have "hash_matches (fs s) h (?C n)"
      by (simp add: occupied_by_other_def)
    moreover from True n(4) res
    have "heic_convert sd env s src filename tf h
        = delete_duplicate env (snd (heic_resolve env s filename tf h)) src"
      by (simp add: heic_convert_matched)
    ultimately show ?thesis using n(1,2) True by auto
  next
    case False
    with n(4) res have free: "heic_resolve env s filename tf h = (Free (?C n), s1)"
      by simp
    from src have "src \<in> fmdom' (fs s)" by (simp add: fmdom'I)
    with False have ne: "?C n \<noteq> src" by auto
    obtain s2 where tried: "heic_try sd env s1 src (?C n) tf h = (None, s2)"
      and s2: "fs s2 = fmdrop src (fmupd (?C n) jpeg (fs s))"
      using heic_try_converted [of s1 src f env jpeg "?C n" sd tf h] src quiet(2,3) ne s1
      by (cases "heic_try sd env s1 src (?C n) tf h") auto
    from heic_convert_converted [OF free tried] s2 n(1,2) False show ?thesis by auto
  qed
qed

text \<open>
  C10. When the digest of the file at the desired name cannot be computed, the comparison
  with it fails and resolution goes on to the names with the counter. With a source
  that exists and calls that do not fail, the generic move ends at a counter name
  (\<open>n > 0\<close>), every earlier candidate holding other content: at an unused name the
  source is moved there; at a name whose digest is computed and equals that of the
  source, and only there, the source is deleted as a duplicate. The conversion does
  the same with the \<open>.jpg\<close> names, writing the converted file and removing the
  original. The unreadable file itself never makes the source a duplicate.
\<close>

theorem unavailable_hash_renames_source:
  assumes "\<And>p. exists_exn env p = None" and "\<And>p. move_exn env p = None"
      and "convert env = Inr jpeg" and "remove_exn env = None"
      and "fmlookup (fs s) src = Some f"
  shows "(joinpath tf filename \<in> fmdom' (fs s) \<and>
          fst (calculate_hash (fs s) (joinpath tf filename)) = None \<longrightarrow>
          (\<exists>n>0.
             (\<forall>k<n. occupied_by_other (fs s) h
                       (candidate tf filename (stem_of filename) (suffix_of filename) k)) \<and>
             (if candidate tf filename (stem_of filename) (suffix_of filename) n \<in> fmdom' (fs s)
              then hash_matches (fs s) h
                     (candidate tf filename (stem_of filename) (suffix_of filename) n) \<and>
                   generic_move sd env s src filename mt tf h
                     = delete_duplicate env (snd (generic_resolve env s filename tf h)) src
              else fst (generic_move sd env s src filename mt tf h) = None \<and>
                   fs (snd (generic_move sd env s src filename mt tf h))
                     = fmupd (candidate tf filename (stem_of filename) (suffix_of filename) n) f
                         (fmdrop src (fs s))))) \<and>
         (joinpath tf (with_suffix_name filename ''.jpg'') \<in> fmdom' (fs s) \<and>
          fst (calculate_hash (fs s) (joinpath tf (with_suffix_name filename ''.jpg''))) = None \<longrightarrow>
          (\<exists>n>0.
             (\<forall>k<n. occupied_by_other (fs s) h
                       (candidate tf (with_suffix_name filename ''.jpg'') (stem_of filename) ''.jpg'' k)) \<and>
             (if candidate tf (with_suffix_name filename ''.jpg'') (stem_of filename) ''.jpg'' n
                   \<in> fmdom' (fs s)
              then hash_matches (fs s) h
                     (candidate tf (with_suffix_name filename ''.jpg'') (stem_of filename) ''.jpg'' n) \<and>
                   heic_convert sd env s src filename tf h
                     = delete_duplicate env (snd (heic_resolve env s filename tf h)) src
              else fst (heic_convert sd env s src filename tf h) = None \<and>
                   fs (snd (heic_convert sd env s src filename tf h))
                     = fmdrop src
                         (fmupd (candidate tf (with_suffix_name filename ''.jpg'')
                                   (stem_of filename) ''.jpg'' n) jpeg (fs s)))))"
proof (intro conjI impI)
  assume "joinpath tf filename \<in> fmdom' (fs s) \<and>
      fst (calculate_hash (fs s) (joinpath tf filename)) = None"
  then have "occupied_by_other (fs s) h (joinpath tf filename)"
    by (simp add: unavailable_is_occupied)
  from generic_move_after_occupied [OF assms(1,2) this assms(5)]
  show "\<exists>n>0.
       (\<forall>k<n. occupied_by_other (fs s) h
                 (candidate tf filename (stem_of filename) (suffix_of filename) k)) \<and>
       (if candidate tf filename (stem_of filename) (suffix_of filename) n \<in> fmdom' (fs s)
        then hash_matches (fs s) h
               (candidate tf filename (stem_of filename) (suffix_of filename) n) \<and>
             generic_move sd env s src filename mt tf h
               = delete_duplicate env (snd (generic_resolve env s filename tf h)) src
        else fst (generic_move sd env s src filename mt tf h) = None \<and>
             fs (snd (generic_move sd env s src filename mt tf h))
               = fmupd (candidate tf filename (stem_of filename) (suffix_of filename) n) f
                   (fmdrop src (fs s)))" .
next
  assume "joinpath tf (with_suffix_name filename ''.jpg'') \<in> fmdom' (fs s) \<and>
      fst (calculate_hash (fs s) (joinpath tf (with_suffix_name filename ''.jpg''))) = None"
  then have "occupied_by_other (fs s) h (joinpath tf (with_suffix_name filename ''.jpg''))"
    by (simp add: unavailable_is_occupied)
  from heic_convert_after_occupied [OF assms(1,3,4) this assms(5)]
  show "\<exists>n>0.
       (\<forall>k<n. occupied_by_other (fs s) h
                 (candidate tf (with_suffix_name filename ''.jpg'') (stem_of filename) ''.jpg'' k)) \<and>
       (if candidate tf (with_suffix_name filename ''.jpg'') (stem_of filename) ''.jpg'' n
             \<in> fmdom' (fs s)
        then hash_matches (fs s) h
               (candidate tf (with_suffix_name filename ''.jpg'') (stem_of filename) ''.jpg'' n) \<and>
             heic_convert sd env s src filename tf h
               = delete_duplicate env (snd (heic_resolve env s filename tf h)) src
        else fst (heic_convert sd env s src filename tf h) = None \<and>
             fs (snd (heic_convert sd env s src filename tf h))
               = fmdrop src
                   (fmupd (candidate tf (with_suffix_name filename ''.jpg'')
                             (stem_of filename) ''.jpg'' n) jpeg (fs s)))" .
qed

theorem unavailable_hash_renames_source_witness:
  "(\<forall>p. exists_exn quiet_env p = None) \<and> (\<forall>p. move_exn quiet_env p = None) \<and>
   convert quiet_env = Inr (file_with ''jpeg-of-heic'') \<and> remove_exn quiet_env = None \<and>
   fmlookup (fs (initial_state unreadable_2020)) [''unsorted_photos'', ''img.jpg'']
     = Some (file_with ''cccc'') \<and>
   joinpath year_2020 ''img.jpg'' \<in> fmdom' (fs (initial_state unreadable_2020)) \<and>
   fst (calculate_hash (fs (initial_state unreadable_2020)) (joinpath year_2020 ''img.jpg'')) = None \<and>
   fs (snd (generic_move [] quiet_env (initial_state unreadable_2020)
              [''unsorted_photos'', ''img.jpg''] ''img.jpg'' media_image year_2020 (Some ''cccc'')))
     = fmupd (joinpath year_2020 ''img_1.jpg'') (file_with ''cccc'')
         (fmdrop [''unsorted_photos'', ''img.jpg''] (fs (initial_state unreadable_2020))) \<and>
   fmlookup (fs (initial_state unreadable_jpg_2020)) [''unsorted_photos'', ''a.heic'']
     = Some (file_with ''dddd'') \<and>
   joinpath year_2020 (with_suffix_name ''a.heic'' ''.jpg'') \<in> fmdom' (fs (initial_state unreadable_jpg_2020)) \<and>
   fst (calculate_hash (fs (initial_state unreadable_jpg_2020))
          (joinpath year_2020 (with_suffix_name ''a.heic'' ''.jpg''))) = None \<and>
   fs (snd (heic_convert [] quiet_env (initial_state unreadable_jpg_2020)
              [''unsorted_photos'', ''a.heic''] ''a.heic'' year_2020 (Some ''dddd'')))
     = fmdrop [''unsorted_photos'', ''a.heic'']
         (fmupd (joinpath year_2020 ''a_1.jpg'') (file_with ''jpeg-of-heic'')
            (fs (initial_state unreadable_jpg_2020)))"
proof -
  let ?s = "initial_state unreadable_2020"
  let ?src = "[''unsorted_photos'', ''img.jpg'']"
  let ?C = "candidate year_2020 ''img.jpg'' (stem_of ''img.jpg'') (suffix_of ''img.jpg'')"
  have q1: "exists_exn quiet_env p = None" and q2: "move_exn quiet_env p = None" for p
    by (simp_all add: quiet_env_def)
  have q3: "convert quiet_env = Inr (file_with ''jpeg-of-heic'')" and q4: "remove_exn quiet_env = None"
    by (simp_all add: quiet_env_def file_with_def)
  have src: "fmlookup (fs ?s) ?src = Some (file_with ''cccc'')"
    by (simp add: initial_state_def unreadable_2020_def example_defs joinpath_def)
  have there: "joinpath year_2020 ''img.jpg'' \<in> fmdom' (fs ?s)"
    by (simp add: initial_state_def unreadable_2020_def)
  have nohash: "fst (calculate_hash (fs ?s) (joinpath year_2020 ''img.jpg'')) = None"
    by (simp add: calculate_hash_def initial_state_def unreadable_2020_def unreadable_file_def)
  have free1: "?C 1 \<notin> fmdom' (fs ?s)"
    by (simp add: candidate_def initial_state_def unreadable_2020_def example_defs joinpath_def
        new_name_def stem_of_def suffix_of_def digit_char_def)
  from unavailable_hash_renames_source [OF q1 q2 q3 q4 src, of year_2020 "''img.jpg''"
      "Some ''cccc''" "[]" media_image] there nohash
  obtain n where n: "n > 0" "\<forall>k<n. occupied_by_other (fs ?s) (Some ''cccc'') (?C k)"
    and out: "if ?C n \<in> fmdom' (fs ?s)
        then hash_matches (fs ?s) (Some ''cccc'') (?C n) \<and>
             generic_move [] quiet_env ?s ?src ''img.jpg'' media_image year_2020 (Some ''cccc'')
               = delete_duplicate quiet_env
                   (snd (generic_resolve quiet_env ?s ''img.jpg'' year_2020 (Some ''cccc''))) ?src
        else fst (generic_move [] quiet_env ?s ?src ''img.jpg'' media_image year_2020 (Some ''cccc'')) = None \<and>
             fs (snd (generic_move [] quiet_env ?s ?src ''img.jpg'' media_image year_2020 (Some ''cccc'')))
               = fmupd (?C n) (file_with ''cccc'') (fmdrop ?src (fs ?s))"
    by blast
  have "n = 1"
  proof (rule ccontr)
    assume "n \<noteq> 1"
    with n(1) have "1 < n" by simp
    with n(2) have "occupied_by_other (fs ?s) (Some ''cccc'') (?C 1)" by blast
    with free1 show False by (simp add: occupied_by_other_def)
  qed
  with out free1 have "fs (snd (generic_move [] quiet_env ?s ?src ''img.jpg'' media_image year_2020 (Some ''cccc'')))
      = fmupd (?C 1) (file_with ''cccc'') (fmdrop ?src (fs ?s))"
    by simp
  moreover have "?C 1 = joinpath year_2020 ''img_1.jpg''"
    by (simp add: candidate_def new_name_def stem_of_def suffix_of_def digit_char_def)
  ultimately have moved: "fs (snd (generic_move [] quiet_env ?s ?src ''img.jpg'' media_image year_2020 (Some ''cccc'')))
      = fmupd (joinpath year_2020 ''img_1.jpg'') (file_with ''cccc'') (fmdrop ?src (fs ?s))"
    by simp
  let ?t = "initial_state unreadable_jpg_2020"
  let ?heic = "[''unsorted_photos'', ''a.heic'']"
  let ?D = "candidate year_2020 (with_suffix_name ''a.heic'' ''.jpg'') (stem_of ''a.heic'') ''.jpg''"
  have hsrc: "fmlookup (fs ?t) ?heic = Some (file_with ''dddd'')"
    by (simp add: initial_state_def unreadable_jpg_2020_def example_defs joinpath_def)
  have hthere: "joinpath year_2020 (with_suffix_name ''a.heic'' ''.jpg'') \<in> fmdom' (fs ?t)"
    by (simp add: initial_state_def unreadable_jpg_2020_def with_suffix_name_def stem_of_def
        suffix_of_def)
  have hnohash: "fst (calculate_hash (fs ?t) (joinpath year_2020 (with_suffix_name ''a.heic'' ''.jpg''))) = None"
    by (simp add: calculate_hash_def initial_state_def unreadable_jpg_2020_def unreadable_file_def
        with_suffix_name_def stem_of_def suffix_of_def)
  have hfree1: "?D 1 \<notin> fmdom' (fs ?t)"
    by (simp add: candidate_def initial_state_def unreadable_jpg_2020_def example_defs joinpath_def
        new_name_def stem_of_def suffix_of_def digit_char_def)
  from unavailable_hash_renames_source [OF q1 q2 q3 q4 hsrc, of year_2020 "''a.heic''"
      "Some ''dddd''" "[]" media_image] hthere hnohash
  obtain m where m: "m > 0" "\<forall>k<m. occupied_by_other (fs ?t) (Some ''dddd'') (?D k)"
    and hout: "if ?D m \<in> fmdom' (fs ?t)
        then hash_matches (fs ?t) (Some ''dddd'') (?D m) \<and>
             heic_convert [] quiet_env ?t ?heic ''a.heic'' year_2020 (Some ''dddd'')
               = delete_duplicate quiet_env
                   (snd (heic_resolve quiet_env ?t ''a.heic'' year_2020 (Some ''dddd''))) ?heic
        else fst (heic_convert [] quiet_env ?t ?heic ''a.heic'' year_2020 (Some ''dddd'')) = None \<and>
             fs (snd (heic_convert [] quiet_env ?t ?heic ''a.heic'' year_2020 (Some ''dddd'')))
               = fmdrop ?heic (fmupd (?D m) (file_with ''jpeg-of-heic'') (fs ?t))"
    by blast
  have "m = 1"
  proof (rule ccontr)
    assume "m \<noteq> 1"
    with m(1) have "1 < m" by simp
    with m(2) have "occupied_by_other (fs ?t) (Some ''dddd'') (?D 1)" by blast
    with hfree1 show False by (simp add: occupied_by_other_def)
  qed
  with hout hfree1 have "fs (snd (heic_convert [] quiet_env ?t ?heic ''a.heic'' year_2020 (Some ''dddd'')))
      = fmdrop ?heic (fmupd (?D 1) (file_with ''jpeg-of-heic'') (fs ?t))"
    by simp
  moreover have "?D 1 = joinpath year_2020 ''a_1.jpg''"
    by (simp add: candidate_def new_name_def stem_of_def suffix_of_def digit_char_def)
  ultimately have converted: "fs (snd (heic_convert [] quiet_env ?t ?heic ''a.heic'' year_2020 (Some ''dddd'')))
      = fmdrop ?heic (fmupd (joinpath year_2020 ''a_1.jpg'') (file_with ''jpeg-of-heic'') (fs ?t))"
    by simp
  from q1 q2 q3 q4 src there nohash moved hsrc hthere hnohash converted
  show ?thesis by blast
qed

text \<open>
  The digest of \<open>img.jpg\<close> in the year folder cannot be computed; \<open>img_1.jpg\<close> holds
  the content of the source. The source is deleted and counted as a duplicate.
\<close>

theorem unavailable_hash_then_duplicate_counterexample:
  "joinpath year_2020 ''img.jpg'' \<in> fmdom' (fs (initial_state unreadable_then_copy)) \<and>
   fst (calculate_hash (fs (initial_state unreadable_then_copy)) (joinpath year_2020 ''img.jpg'')) = None \<and>
   [''unsorted_photos'', ''img.jpg''] \<in> fmdom' (fs (initial_state unreadable_then_copy)) \<and>
   [''unsorted_photos'', ''img.jpg'']
     \<notin> fmdom' (fs (snd (generic_move [] quiet_env (initial_state unreadable_then_copy)
                   [''unsorted_photos'', ''img.jpg''] ''img.jpg'' media_image year_2020 (Some ''cccc'')))) \<and>
   fmdom' (fs (snd (generic_move [] quiet_env (initial_state unreadable_then_copy)
                   [''unsorted_photos'', ''img.jpg''] ''img.jpg'' media_image year_2020 (Some ''cccc''))))
     = {joinpath year_2020 ''img.jpg'', joinpath year_2020 ''img_1.jpg''} \<and>
   duplicate_deleted_count (snd (generic_move [] quiet_env (initial_state unreadable_then_copy)
                   [''unsorted_photos'', ''img.jpg''] ''img.jpg'' media_image year_2020 (Some ''cccc''))) = 1"
  by (auto simp: model_defs example_defs unreadable_then_copy_def)

section \<open>The target of an image that fails to decode\<close>

lemma get_date_taken_raised:
  assumes "file_ext \<in> IMAGE_EXTENSIONS" and "raised_by beh = Some e"
  shows "fst (get_date_taken file_ext beh) = (if e = FileNotFoundError then Some ''error'' else None)"
  using assms
  by (cases beh; cases e) (simp_all add: get_date_taken_def raised_by_def date_handler_def)

lemma determine_target_error:
  "fst (determine_target sd env s media_image (Some ''error'') tf0) = Some (ERROR_DIR sd)"
  by (simp add: determine_target_def)

lemma determine_target_no_date:
  "fst (determine_target sd env s media_image None tf0)
     = Some (joinpath (NO_DATE_DIR sd) (fst (get_file_size_category (stat_size env))))"
  by (simp add: determine_target_def no_date_target_def Let_def)

lemma get_date_taken_no_date:
  assumes "file_ext \<in> IMAGE_EXTENSIONS" and "spec_year d = None"
  shows "fst (get_date_taken file_ext (Exif d)) = None"
proof (cases d)
  case None
  with assms(1) show ?thesis by (simp add: get_date_taken_def truthy_def)
next
  case (Some ex)
  with assms(2) have "\<not> spec_tag_accepted (map_of ex 36867)" "\<not> spec_tag_accepted (map_of ex 306)"
    by (auto simp: spec_year_def spec_tag_def split: if_splits)
  then have "year_of_tag (map_of ex 36867) = None" "year_of_tag (map_of ex 306) = None"
    by (simp_all add: year_of_tag_spec)
  with Some assms(1) show ?thesis
    by (simp add: get_date_taken_def Let_def truthy_def)
qed

text \<open>
  C1. For an image whose decoding raises, the target folder is the errors folder when
  the exception is \<^verbatim>\<open>FileNotFoundError\<close> (the file vanished), and for every other
  exception, an unidentified image included, the no-date folder of the size tier,
  which is also the target of a decoded image without an accepted timestamp tag.
\<close>

theorem failed_decode_target:
  assumes "file_ext \<in> IMAGE_EXTENSIONS"
  shows "(raised_by beh = Some e \<longrightarrow>
            fst (determine_target sd env s media_image (fst (get_date_taken file_ext beh)) tf0)
              = Some (if e = FileNotFoundError then ERROR_DIR sd
                      else joinpath (NO_DATE_DIR sd) (fst (get_file_size_category (stat_size env))))) \<and>
         (beh = Exif d \<and> spec_year d = None \<longrightarrow>
            fst (determine_target sd env s media_image (fst (get_date_taken file_ext beh)) tf0)
              = Some (joinpath (NO_DATE_DIR sd) (fst (get_file_size_category (stat_size env)))))"
proof (intro conjI impI)
  assume "raised_by beh = Some e"
  from get_date_taken_raised [OF assms this]
  show "fst (determine_target sd env s media_image (fst (get_date_taken file_ext beh)) tf0)
      = Some (if e = FileNotFoundError then ERROR_DIR sd
              else joinpath (NO_DATE_DIR sd) (fst (get_file_size_category (stat_size env))))"
    by (simp add: determine_target_error determine_target_no_date)
next
  assume "beh = Exif d \<and> spec_year d = None"
  then have "fst (get_date_taken file_ext beh) = None"
    using get_date_taken_no_date [OF assms, of d] by simp
  then show "fst (determine_target sd env s media_image (fst (get_date_taken file_ext beh)) tf0)
      = Some (joinpath (NO_DATE_DIR sd) (fst (get_file_size_category (stat_size env))))"
    by (simp add: determine_target_no_date)
qed

theorem failed_decode_target_witness:
  "''.jpg'' \<in> IMAGE_EXTENSIONS \<and>
   raised_by (OpenRaises FileNotFoundError) = Some FileNotFoundError \<and>
   fst (determine_target [] quiet_env (initial_state one_bad_jpg) media_image
          (fst (get_date_taken ''.jpg'' (OpenRaises FileNotFoundError))) None)
     = Some [''sorted_photos'', ''errors''] \<and>
   raised_by (OpenRaises UnidentifiedImageError) = Some UnidentifiedImageError \<and>
   fst (determine_target [] quiet_env (initial_state one_bad_jpg) media_image
          (fst (get_date_taken ''.jpg'' (OpenRaises UnidentifiedImageError))) None)
     = Some [''sorted_photos'', ''no_date'', ''tiny_under_0.5MB''] \<and>
   raised_by (LoadRaises OSError) = Some OSError \<and>
   fst (determine_target [] quiet_env (initial_state one_bad_jpg) media_image
          (fst (get_date_taken ''.jpg'' (LoadRaises OSError))) None)
     = Some [''sorted_photos'', ''no_date'', ''tiny_under_0.5MB''] \<and>
   spec_year None = None \<and>
   fst (determine_target [] quiet_env (initial_state one_bad_jpg) media_image
          (fst (get_date_taken ''.jpg'' (Exif None))) None)
     = Some [''sorted_photos'', ''no_date'', ''tiny_under_0.5MB'']"
proof -
  have ext: "''.jpg'' \<in> IMAGE_EXTENSIONS" by (simp add: IMAGE_EXTENSIONS_def)
  have size: "fst (get_file_size_category (stat_size quiet_env)) = ''tiny_under_0.5MB''"
    by (simp add: quiet_env_def get_file_size_category_def)
  have nodate: "spec_year None = None"
    by (simp add: spec_year_def spec_tag_def spec_tag_accepted_def)
  from failed_decode_target [OF ext, of "OpenRaises FileNotFoundError" FileNotFoundError "[]"
      quiet_env "initial_state one_bad_jpg" None]
    failed_decode_target [OF ext, of "OpenRaises UnidentifiedImageError" UnidentifiedImageError "[]"
      quiet_env "initial_state one_bad_jpg" None]
    failed_decode_target [OF ext, of "LoadRaises OSError" OSError "[]"
      quiet_env "initial_state one_bad_jpg" None]
    failed_decode_target [OF ext, of "Exif None" _ "[]"
      quiet_env "initial_state one_bad_jpg" None None]
  show ?thesis
    using ext size nodate
    by (simp add: raised_by_def ERROR_DIR_def NO_DATE_DIR_def DEST_DIR_def joinpath_def)
qed

text \<open>
  An image the decoder cannot identify, and one whose \<^verbatim>\<open>img.load()\<close> raises
  \<^verbatim>\<open>OSError\<close>: each ends in the no-date folder of its size, and no error is counted.
\<close>

theorem failed_decode_goes_to_no_date_counterexample:
  "fst (get_date_taken ''.jpg'' (decode unidentified_env)) = None \<and>
   fmdom' (fs (snd (walk [] (initial_state one_bad_jpg) [([''unsorted_photos''], ''bad.jpg'', unidentified_env)])))
     = {[''sorted_photos'', ''no_date'', ''tiny_under_0.5MB'', ''bad.jpg'']} \<and>
   error_count (snd (walk [] (initial_state one_bad_jpg) [([''unsorted_photos''], ''bad.jpg'', unidentified_env)])) = 0 \<and>
   fmdom' (fs (snd (walk [] (initial_state one_bad_jpg) [([''unsorted_photos''], ''bad.jpg'', truncated_env)])))
     = {[''sorted_photos'', ''no_date'', ''tiny_under_0.5MB'', ''bad.jpg'']} \<and>
   error_count (snd (walk [] (initial_state one_bad_jpg) [([''unsorted_photos''], ''bad.jpg'', truncated_env)])) = 0"
  by (auto simp: model_defs example_defs one_bad_jpg_def unidentified_env_def truncated_env_def)

section \<open>Exceptions at the boundary of a file\<close>

lemma error_dest_loop_raise:
  "path_exists env fsys dest = Inl e \<Longrightarrow> error_dest_loop env fsys d stem ext dest c = Inl e"
  by (subst error_dest_loop.simps) simp




lemma process_file_ok:
  "process_body sd env s root_dir filename = (None, s1) \<Longrightarrow>
     process_file sd env s root_dir filename = (None, s1)"
  by (simp add: process_file_def)








section \<open>Error outcomes\<close>






section \<open>Duplicates within a run\<close>

lemma extends_refl [simp]: "extends m m"
  by (simp add: extends_def)

lemma extends_trans: "extends a b \<Longrightarrow> extends b c \<Longrightarrow> extends a c"
  by (auto simp: extends_def)

lemma extends_record_hash [simp]: "extends m (record_hash key h m)"
  by (auto simp: extends_def record_hash_def recorded_def)

lemma extends_setdefault [simp]: "extends m (m(key \<mapsto> recorded m key))"
  by (auto simp: extends_def recorded_def)

lemma recorded_setdefault [simp]: "recorded (m(key \<mapsto> recorded m key)) k = recorded m k"
  by (auto simp: recorded_def)

lemma recorded_record_hash: "h \<in> recorded (record_hash key h m) key"
  by (simp add: record_hash_def recorded_def)

lemma delete_duplicate_hashes [simp]:
  "hashes_in_destination (snd (delete_duplicate env s p)) = hashes_in_destination s"
  by (auto simp: delete_duplicate_def split: sum.splits)

lemma generic_move_extends:
  "extends (hashes_in_destination s) (hashes_in_destination (snd (generic_move sd env s src filename mt tf h)))"
proof (cases "generic_resolve env s filename tf h")
  case (Pair r s1)
  then have s1: "hashes_in_destination s1 = hashes_in_destination s"
    using conflict_loop_fields(2) [of env s tf "stem_of filename" "suffix_of filename" h
        "joinpath tf filename" 1]
    by (simp add: generic_resolve_def)
  show ?thesis
  proof (cases r)
    case (Raised e)
    with Pair s1 show ?thesis by (simp add: generic_move_def)
  next
    case (Matched p)
    with Pair s1 show ?thesis by (simp add: generic_move_def)
  next
    case (Free d)
    with Pair s1 show ?thesis
      by (auto simp: generic_move_def Let_def count_move_def split: sum.splits)
  qed
qed

lemma heic_try_extends:
  "extends (hashes_in_destination s) (hashes_in_destination (snd (heic_try sd env s src d tf h)))"
  by (auto simp: heic_try_def Let_def count_move_def split: sum.splits)

lemma heic_convert_extends:
  "extends (hashes_in_destination s) (hashes_in_destination (snd (heic_convert sd env s src filename tf h)))"
proof (cases "heic_resolve env s filename tf h")
  case (Pair r s1)
  then have s1: "hashes_in_destination s1 = hashes_in_destination s"
    using conflict_loop_fields(2) [of env s tf "stem_of filename" "''.jpg''" h
        "joinpath tf (with_suffix_name filename ''.jpg'')" 1]
    by (simp add: heic_resolve_def Let_def)
  show ?thesis
  proof (cases r)
    case (Raised e)
    with Pair s1 show ?thesis by (simp add: heic_convert_raised)
  next
    case (Matched p)
    with Pair s1 show ?thesis by (simp add: heic_convert_matched)
  next
    case (Free d)
    obtain o2 s2 where tried: "heic_try sd env s1 src d tf h = (o2, s2)"
      by (cases "heic_try sd env s1 src d tf h")
    have s2: "extends (hashes_in_destination s) (hashes_in_destination s2)"
      using heic_try_extends [of s1 sd env src d tf h] tried s1 by simp
    show ?thesis
    proof (cases o2)
      case None
      with Pair Free tried s2 show ?thesis by (simp add: heic_convert_converted)
    next
      case (Some e)
      with Pair Free tried s2 show ?thesis
        by (simp add: heic_convert_failed split: sum.splits)
    qed
  qed
qed

lemma convert_or_move_extends:
  "extends (hashes_in_destination s)
     (hashes_in_destination (snd (convert_or_move sd env s src filename file_ext mt tf h)))"
  by (simp add: convert_or_move_def heic_convert_extends generic_move_extends)

lemma place_file_extends:
  "extends (hashes_in_destination s)
     (hashes_in_destination (snd (place_file sd env s src filename file_ext mt target)))"
proof (cases target)
  case None
  then show ?thesis by (simp add: place_file_def)
next
  case (Some tf)
  show ?thesis
  proof (cases "mkdir_exn env tf")
    case (Some e)
    with \<open>target = Some tf\<close> show ?thesis by (simp add: place_file_mkdir_fails)
  next
    case None
    note mk = this
    show ?thesis
    proof (cases "fst (calculate_hash (fs s) src)")
      case None
      show ?thesis
        using convert_or_move_extends [where sd = sd and env = env and src = src
            and filename = filename and file_ext = file_ext and mt = mt and tf = "ERROR_DIR sd"
            and h = None
            and s = "(emit (snd (calculate_hash (fs s) src) @ [Log WARNING]) s)
                        \<lparr>error_count := error_count s + 1\<rparr>"]
        by (simp add: \<open>target = Some tf\<close> place_file_hash_fails [OF mk None] split: option.splits)
    next
      case (Some h)
      show ?thesis
      proof (cases "Some h \<in> recorded (hashes_in_destination s) (str_path tf)")
        case True
        show ?thesis
          by (simp add: \<open>target = Some tf\<close> place_file_duplicate [OF mk Some True])
      next
        case False
        let ?s' = "(emit (snd (calculate_hash (fs s) src)) s)
                \<lparr>hashes_in_destination := (hashes_in_destination s)
                    (str_path tf \<mapsto> recorded (hashes_in_destination s) (str_path tf))\<rparr>"
        have a: "extends (hashes_in_destination s) (hashes_in_destination ?s')"
          by simp
        have b: "extends (hashes_in_destination ?s')
            (hashes_in_destination (snd (convert_or_move sd env ?s' src filename file_ext mt tf (Some h))))"
          by (rule convert_or_move_extends)
        from extends_trans [OF a b] show ?thesis
          by (simp only: \<open>target = Some tf\<close> place_file_fresh [OF mk Some False])
      qed
    qed
  qed
qed

lemma determine_target_hashes [simp]:
  "hashes_in_destination (snd (determine_target sd env s mt yos tf0)) = hashes_in_destination s"
  by (auto simp: determine_target_def no_date_target_def Let_def split: option.splits)

lemma locate_and_place_extends:
  "extends (hashes_in_destination s)
     (hashes_in_destination (snd (locate_and_place sd env s src filename ext mt yos tf0)))"
  using place_file_extends [of "snd (determine_target sd env s mt yos tf0)" sd env src filename ext mt
      "fst (determine_target sd env s mt yos tf0)"]
  by (simp add: locate_and_place_def Let_def)

lemma process_body_extends:
  "extends (hashes_in_destination s)
     (hashes_in_destination (snd (process_body sd env s root_dir filename)))"
proof (cases rule: process_body_cases [of sd root_dir filename])
  case skipped
  then show ?thesis by (simp add: process_body_skipped)
next
  case image
  then show ?thesis
    using locate_and_place_extends [of
        "emit (snd (get_date_taken (lower (suffix_of filename)) (decode env))) s" sd env]
    by (simp add: process_body_image)
next
  case video
  then show ?thesis by (simp add: process_body_video locate_and_place_extends)
next
  case archive
  then show ?thesis
    using locate_and_place_extends [of
        "emit [Log INFO] (s\<lparr>archive_moved_count := archive_moved_count s + 1\<rparr>)" sd env]
    by (simp add: process_body_archive)
next
  case other
  then show ?thesis
    by (auto simp: process_body_other split: sum.splits)
qed

lemma process_file_extends:
  "extends (hashes_in_destination s)
     (hashes_in_destination (snd (process_file sd env s root_dir filename)))"
proof (cases "process_body sd env s root_dir filename")
  case (Pair o1 s1)
  have "extends (hashes_in_destination s) (hashes_in_destination s1)"
    using process_body_extends [of s sd env root_dir filename] Pair by simp
  with Pair show ?thesis
    by (cases o1) (simp_all add: process_file_def Let_def split: sum.splits)
qed

lemma walk_extends:
  "extends (hashes_in_destination s) (hashes_in_destination (snd (walk sd s items)))"
proof (induction items arbitrary: s)
  case Nil
  then show ?case by simp
next
  case (Cons item items)
  obtain root_dir filename env where item: "item = (root_dir, filename, env)"
    by (cases item)
  obtain o1 s1 where step: "process_file sd env s root_dir filename = (o1, s1)"
    by (cases "process_file sd env s root_dir filename")
  have one: "extends (hashes_in_destination s) (hashes_in_destination s1)"
    using process_file_extends [of s sd env root_dir filename] step by simp
  show ?case
  proof (cases o1)
    case None
    with item step one Cons.IH [of s1] show ?thesis
      by (simp add: extends_trans)
  next
    case (Some e)
    with item step one show ?thesis by simp
  qed
qed


lemma generic_move_records:
  assumes "generic_resolve env s filename tf h = (Free d, s1)"
      and "shutil_move env (fs s1) src d = Inr fs'" and "truthy h"
  shows "h \<in> recorded (hashes_in_destination (snd (generic_move sd env s src filename mt tf h)))
           (str_path tf)"
  using assms by (simp add: generic_move_def Let_def recorded_record_hash)

lemma heic_try_records:
  "fst (heic_try sd env s src d tf h) = None \<Longrightarrow>
     h \<in> recorded (hashes_in_destination (snd (heic_try sd env s src d tf h))) (str_path tf)"
  by (auto simp: heic_try_def Let_def count_move_def recorded_record_hash
      split: sum.splits if_splits)

lemma heic_convert_records:
  assumes "heic_resolve env s filename tf h = (Free d, s1)"
      and "fst (heic_try sd env s1 src d tf h) = None"
  shows "h \<in> recorded (hashes_in_destination (snd (heic_convert sd env s src filename tf h)))
           (str_path tf)"
proof -
  from assms(2) have "heic_try sd env s1 src d tf h = (None, snd (heic_try sd env s1 src d tf h))"
    by (metis prod.collapse)
  from heic_convert_converted [OF assms(1) this] heic_try_records [OF assms(2)]
  show ?thesis by simp
qed

lemma delete_duplicate_outcome:
  assumes "fmlookup (fs s) p = Some f" and "\<forall>e. remove_exn env = Some e \<longrightarrow> is_OSError e"
  shows "fst (delete_duplicate env s p) = None"
    and "if remove_exn env = None
         then fs (snd (delete_duplicate env s p)) = fmdrop p (fs s) \<and>
              duplicate_deleted_count (snd (delete_duplicate env s p)) = duplicate_deleted_count s + 1 \<and>
              error_count (snd (delete_duplicate env s p)) = error_count s
         else fs (snd (delete_duplicate env s p)) = fs s \<and>
              error_count (snd (delete_duplicate env s p)) = error_count s + 1 \<and>
              duplicate_deleted_count (snd (delete_duplicate env s p)) = duplicate_deleted_count s"
  using assms by (auto simp: delete_duplicate_def os_remove_def split: option.splits)

lemma calculate_hash_present:
  "fst (calculate_hash fsys p) = Some h \<Longrightarrow> \<exists>f. fmlookup fsys p = Some f"
  by (auto simp: calculate_hash_def split: option.splits)

lemma place_file_recorded_duplicate:
  assumes rec: "Some h \<in> recorded (hashes_in_destination s) (str_path tf)"
      and hash: "fst (calculate_hash (fs s) src) = Some h"
      and mk: "mkdir_exn env tf = None"
      and rm: "\<forall>e. remove_exn env = Some e \<longrightarrow> is_OSError e"
  shows "fst (place_file sd env s src filename file_ext mt (Some tf)) = None \<and>
         (\<forall>p. p \<noteq> src \<longrightarrow>
            fmlookup (fs (snd (place_file sd env s src filename file_ext mt (Some tf)))) p
              = fmlookup (fs s) p) \<and>
         (if remove_exn env = None
          then fs (snd (place_file sd env s src filename file_ext mt (Some tf))) = fmdrop src (fs s) \<and>
               duplicate_deleted_count (snd (place_file sd env s src filename file_ext mt (Some tf)))
                 = duplicate_deleted_count s + 1 \<and>
               error_count (snd (place_file sd env s src filename file_ext mt (Some tf)))
                 = error_count s
          else fs (snd (place_file sd env s src filename file_ext mt (Some tf))) = fs s \<and>
               error_count (snd (place_file sd env s src filename file_ext mt (Some tf)))
                 = error_count s + 1 \<and>
               duplicate_deleted_count (snd (place_file sd env s src filename file_ext mt (Some tf)))
                 = duplicate_deleted_count s)"
proof -
  let ?s' = "emit [Log WARNING] ((emit (snd (calculate_hash (fs s) src)) s)
          \<lparr>hashes_in_destination := (hashes_in_destination s)
              (str_path tf \<mapsto> recorded (hashes_in_destination s) (str_path tf))\<rparr>)"
  from calculate_hash_present [OF hash] obtain f where f: "fmlookup (fs ?s') src = Some f"
    by auto
  have eq: "place_file sd env s src filename file_ext mt (Some tf) = delete_duplicate env ?s' src"
    by (rule place_file_duplicate [OF mk hash rec])
  from delete_duplicate_outcome [OF f rm] show ?thesis
    unfolding eq by (auto split: if_splits)
qed

text \<open>
  C2. A successful move or conversion into a folder records the hash of the source
  for that folder, and the record is kept for the rest of the run. A later file with
  a recorded hash and the same folder is never written to a destination: the only
  path that can change is its source, which is deleted and counted as a deleted
  duplicate when \<^verbatim>\<open>os.remove\<close> succeeds, and otherwise stays and is counted as an
  error.
\<close>

theorem recorded_duplicate_is_not_written:
  "(generic_resolve env s filename tf h = (Free d, s1) \<and>
    shutil_move env (fs s1) src d = Inr fs' \<and> truthy h \<longrightarrow>
      h \<in> recorded (hashes_in_destination (snd (generic_move sd env s src filename mt tf h)))
            (str_path tf)) \<and>
   (heic_resolve env s filename tf h = (Free d, s1) \<and>
    fst (heic_try sd env s1 src d tf h) = None \<longrightarrow>
      h \<in> recorded (hashes_in_destination (snd (heic_convert sd env s src filename tf h)))
            (str_path tf)) \<and>
   (Some digest_of_both \<in> recorded (hashes_in_destination s0) (str_path tf) \<and>
    walk sd s0 items = (None, s) \<and>
    fst (calculate_hash (fs s) src) = Some digest_of_both \<and>
    mkdir_exn env tf = None \<and>
    (\<forall>e. remove_exn env = Some e \<longrightarrow> is_OSError e) \<longrightarrow>
      fst (place_file sd env s src filename file_ext mt (Some tf)) = None \<and>
      (\<forall>p. p \<noteq> src \<longrightarrow>
         fmlookup (fs (snd (place_file sd env s src filename file_ext mt (Some tf)))) p
           = fmlookup (fs s) p) \<and>
      (if remove_exn env = None
       then fs (snd (place_file sd env s src filename file_ext mt (Some tf))) = fmdrop src (fs s) \<and>
            duplicate_deleted_count (snd (place_file sd env s src filename file_ext mt (Some tf)))
              = duplicate_deleted_count s + 1 \<and>
            error_count (snd (place_file sd env s src filename file_ext mt (Some tf)))
              = error_count s
       else fs (snd (place_file sd env s src filename file_ext mt (Some tf))) = fs s \<and>
            error_count (snd (place_file sd env s src filename file_ext mt (Some tf)))
              = error_count s + 1 \<and>
            duplicate_deleted_count (snd (place_file sd env s src filename file_ext mt (Some tf)))
              = duplicate_deleted_count s))"
proof (intro conjI impI)
  assume "generic_resolve env s filename tf h = (Free d, s1) \<and>
    shutil_move env (fs s1) src d = Inr fs' \<and> truthy h"
  then show "h \<in> recorded (hashes_in_destination (snd (generic_move sd env s src filename mt tf h)))
            (str_path tf)"
    using generic_move_records by blast
next
  assume "heic_resolve env s filename tf h = (Free d, s1) \<and>
    fst (heic_try sd env s1 src d tf h) = None"
  then show "h \<in> recorded (hashes_in_destination (snd (heic_convert sd env s src filename tf h)))
            (str_path tf)"
    using heic_convert_records by blast
next
  assume a: "Some digest_of_both \<in> recorded (hashes_in_destination s0) (str_path tf) \<and>
    walk sd s0 items = (None, s) \<and>
    fst (calculate_hash (fs s) src) = Some digest_of_both \<and>
    mkdir_exn env tf = None \<and>
    (\<forall>e. remove_exn env = Some e \<longrightarrow> is_OSError e)"
  then have "extends (hashes_in_destination s0) (hashes_in_destination s)"
    using walk_extends [of s0 sd items] by simp
  with a have rec: "Some digest_of_both \<in> recorded (hashes_in_destination s) (str_path tf)"
    by (auto simp: extends_def)
  from a have hash: "fst (calculate_hash (fs s) src) = Some digest_of_both"
    and mk: "mkdir_exn env tf = None"
    and rm: "\<forall>e. remove_exn env = Some e \<longrightarrow> is_OSError e"
    by blast+
  from place_file_recorded_duplicate [OF rec hash mk rm]
  show "fst (place_file sd env s src filename file_ext mt (Some tf)) = None"
    and "\<forall>p. p \<noteq> src \<longrightarrow>
         fmlookup (fs (snd (place_file sd env s src filename file_ext mt (Some tf)))) p
           = fmlookup (fs s) p"
    and "if remove_exn env = None
       then fs (snd (place_file sd env s src filename file_ext mt (Some tf))) = fmdrop src (fs s) \<and>
            duplicate_deleted_count (snd (place_file sd env s src filename file_ext mt (Some tf)))
              = duplicate_deleted_count s + 1 \<and>
            error_count (snd (place_file sd env s src filename file_ext mt (Some tf)))
              = error_count s
       else fs (snd (place_file sd env s src filename file_ext mt (Some tf))) = fs s \<and>
            error_count (snd (place_file sd env s src filename file_ext mt (Some tf)))
              = error_count s + 1 \<and>
            duplicate_deleted_count (snd (place_file sd env s src filename file_ext mt (Some tf)))
              = duplicate_deleted_count s"
    by blast+
qed

theorem recorded_duplicate_is_not_written_witness:
  "fst (generic_resolve quiet_env (initial_state two_copies) ''a.jpg'' tiny_folder (Some ''cccc''))
     = Free (joinpath tiny_folder ''a.jpg'') \<and>
   shutil_move quiet_env
       (fs (snd (generic_resolve quiet_env (initial_state two_copies) ''a.jpg'' tiny_folder (Some ''cccc''))))
       [''unsorted_photos'', ''a.jpg''] (joinpath tiny_folder ''a.jpg'')
     = Inr (fmupd (joinpath tiny_folder ''a.jpg'') (file_with ''cccc'')
              (fmdrop [''unsorted_photos'', ''a.jpg''] two_copies)) \<and>
   truthy (Some ''cccc'') \<and>
   Some ''cccc'' \<in> recorded (hashes_in_destination
       (snd (generic_move [] quiet_env (initial_state two_copies) [''unsorted_photos'', ''a.jpg'']
               ''a.jpg'' media_image tiny_folder (Some ''cccc'')))) (str_path tiny_folder) \<and>
   fst (heic_resolve quiet_env (initial_state one_heic) ''a.heic'' tiny_folder (Some ''dddd''))
     = Free (joinpath tiny_folder ''a.jpg'') \<and>
   fst (heic_try [] quiet_env
          (snd (heic_resolve quiet_env (initial_state one_heic) ''a.heic'' tiny_folder (Some ''dddd'')))
          [''unsorted_photos'', ''a.heic''] (joinpath tiny_folder ''a.jpg'') tiny_folder (Some ''dddd''))
     = None \<and>
   Some ''dddd'' \<in> recorded (hashes_in_destination
       (snd (heic_convert [] quiet_env (initial_state one_heic) [''unsorted_photos'', ''a.heic'']
               ''a.heic'' tiny_folder (Some ''dddd'')))) (str_path tiny_folder) \<and>
   Some ''cccc'' \<in> recorded (hashes_in_destination after_first) (str_path tiny_folder) \<and>
   walk [] after_first [([''unsorted_photos''], ''notes.txt'', quiet_env)] = (None, after_between) \<and>
   fst (calculate_hash (fs after_between) [''unsorted_photos'', ''locked'', ''b.jpg'']) = Some ''cccc'' \<and>
   mkdir_exn quiet_env tiny_folder = None \<and>
   remove_exn quiet_env = None \<and>
   fst (place_file [] quiet_env after_between [''unsorted_photos'', ''locked'', ''b.jpg''] ''b.jpg''
          ''.jpg'' media_image (Some tiny_folder)) = None \<and>
   fs (snd (place_file [] quiet_env after_between [''unsorted_photos'', ''locked'', ''b.jpg''] ''b.jpg''
          ''.jpg'' media_image (Some tiny_folder)))
     = fmdrop [''unsorted_photos'', ''locked'', ''b.jpg''] (fs after_between) \<and>
   duplicate_deleted_count (snd (place_file [] quiet_env after_between
          [''unsorted_photos'', ''locked'', ''b.jpg''] ''b.jpg'' ''.jpg'' media_image (Some tiny_folder)))
     = duplicate_deleted_count after_between + 1"
proof -
  have free: "fst (generic_resolve quiet_env (initial_state two_copies) ''a.jpg'' tiny_folder (Some ''cccc''))
     = Free (joinpath tiny_folder ''a.jpg'')"
    by (simp add: model_defs example_defs two_copies_def tiny_folder_def)
  then have resolve: "generic_resolve quiet_env (initial_state two_copies) ''a.jpg'' tiny_folder (Some ''cccc'')
     = (Free (joinpath tiny_folder ''a.jpg''),
        snd (generic_resolve quiet_env (initial_state two_copies) ''a.jpg'' tiny_folder (Some ''cccc'')))"
    by (metis prod.collapse)
  have mv: "shutil_move quiet_env
       (fs (snd (generic_resolve quiet_env (initial_state two_copies) ''a.jpg'' tiny_folder (Some ''cccc''))))
       [''unsorted_photos'', ''a.jpg''] (joinpath tiny_folder ''a.jpg'')
     = Inr (fmupd (joinpath tiny_folder ''a.jpg'') (file_with ''cccc'')
              (fmdrop [''unsorted_photos'', ''a.jpg''] two_copies))"
    by (simp add: model_defs example_defs two_copies_def tiny_folder_def)
  have tr: "truthy (Some ''cccc'')" by (simp add: truthy_def)
  from recorded_duplicate_is_not_written [where env = quiet_env and s = "initial_state two_copies"
      and filename = "''a.jpg''" and tf = tiny_folder and h = "Some ''cccc''"
      and d = "joinpath tiny_folder ''a.jpg''"
      and ?s1.0 = "snd (generic_resolve quiet_env (initial_state two_copies) ''a.jpg'' tiny_folder
                     (Some ''cccc''))"
      and src = "[''unsorted_photos'', ''a.jpg'']"
      and fs' = "fmupd (joinpath tiny_folder ''a.jpg'') (file_with ''cccc'')
              (fmdrop [''unsorted_photos'', ''a.jpg''] two_copies)"
      and sd = "[]" and mt = media_image]
    resolve mv tr
  have moved: "Some ''cccc'' \<in> recorded (hashes_in_destination
       (snd (generic_move [] quiet_env (initial_state two_copies) [''unsorted_photos'', ''a.jpg'']
               ''a.jpg'' media_image tiny_folder (Some ''cccc'')))) (str_path tiny_folder)"
    by blast
  have hfree: "fst (heic_resolve quiet_env (initial_state one_heic) ''a.heic'' tiny_folder (Some ''dddd''))
     = Free (joinpath tiny_folder ''a.jpg'')"
    by (simp add: model_defs example_defs one_heic_def tiny_folder_def)
  then have hresolve: "heic_resolve quiet_env (initial_state one_heic) ''a.heic'' tiny_folder (Some ''dddd'')
     = (Free (joinpath tiny_folder ''a.jpg''),
        snd (heic_resolve quiet_env (initial_state one_heic) ''a.heic'' tiny_folder (Some ''dddd'')))"
    by (metis prod.collapse)
  have tried: "fst (heic_try [] quiet_env
          (snd (heic_resolve quiet_env (initial_state one_heic) ''a.heic'' tiny_folder (Some ''dddd'')))
          [''unsorted_photos'', ''a.heic''] (joinpath tiny_folder ''a.jpg'') tiny_folder (Some ''dddd''))
     = None"
    by (simp add: model_defs example_defs one_heic_def tiny_folder_def)
  from recorded_duplicate_is_not_written [where env = quiet_env and s = "initial_state one_heic"
      and filename = "''a.heic''" and tf = tiny_folder and h = "Some ''dddd''"
      and d = "joinpath tiny_folder ''a.jpg''"
      and ?s1.0 = "snd (heic_resolve quiet_env (initial_state one_heic) ''a.heic'' tiny_folder
                     (Some ''dddd''))"
      and src = "[''unsorted_photos'', ''a.heic'']" and sd = "[]"]
    hresolve tried
  have converted: "Some ''dddd'' \<in> recorded (hashes_in_destination
       (snd (heic_convert [] quiet_env (initial_state one_heic) [''unsorted_photos'', ''a.heic'']
               ''a.heic'' tiny_folder (Some ''dddd'')))) (str_path tiny_folder)"
    by blast
  have first: "hashes_in_destination after_first (str_path tiny_folder) = Some {Some ''cccc''}"
    by (simp add: after_first_def model_defs example_defs three_files_def two_copies_def
        tiny_folder_def)
  then have rec: "Some ''cccc'' \<in> recorded (hashes_in_destination after_first) (str_path tiny_folder)"
    by (simp add: recorded_def)
  have fs1: "fs after_first
      = fmupd (joinpath tiny_folder ''a.jpg'') (file_with ''cccc'')
          (fmdrop [''unsorted_photos'', ''a.jpg''] three_files)"
    by (simp add: after_first_def model_defs example_defs three_files_def two_copies_def
        tiny_folder_def)
  have removed: "os_remove quiet_env (fs after_first) [''unsorted_photos'', ''notes.txt'']
      = Inr (fmdrop [''unsorted_photos'', ''notes.txt''] (fs after_first))"
    by (simp add: fs1 os_remove_def quiet_env_def three_files_def two_copies_def tiny_folder_def
        joinpath_def)
  have body: "process_body [] quiet_env after_first [''unsorted_photos''] ''notes.txt''
      = (None, emit [Log INFO]
           (after_first\<lparr>fs := fmdrop [''unsorted_photos'', ''notes.txt''] (fs after_first),
              deleted_non_media_count := deleted_non_media_count after_first + 1\<rparr>))"
    by (subst process_body_other)
       (simp_all add: removed parents_def joinpath_def DEST_DIR_def lower_def lower_char_def
          suffix_of_def IMAGE_EXTENSIONS_def VIDEO_EXTENSIONS_def ARCHIVE_EXTENSIONS_def)
  have between: "walk [] after_first [([''unsorted_photos''], ''notes.txt'', quiet_env)]
      = (None, after_between)"
    by (simp add: after_between_def process_file_ok [OF body])
  have fs2: "fs after_between = fmdrop [''unsorted_photos'', ''notes.txt''] (fs after_first)"
    by (simp add: after_between_def process_file_ok [OF body])
  have hash: "fst (calculate_hash (fs after_between) [''unsorted_photos'', ''locked'', ''b.jpg''])
      = Some ''cccc''"
    by (simp add: fs2 fs1 calculate_hash_def three_files_def two_copies_def tiny_folder_def
        file_with_def joinpath_def)
  have mk: "mkdir_exn quiet_env tiny_folder = None"
    and rm: "\<forall>e. remove_exn quiet_env = Some e \<longrightarrow> is_OSError e"
    and rm0: "remove_exn quiet_env = None"
    by (simp_all add: quiet_env_def)
  from recorded_duplicate_is_not_written [where env = quiet_env and s = after_between
      and src = "[''unsorted_photos'', ''locked'', ''b.jpg'']" and filename = "''b.jpg''"
      and file_ext = "''.jpg''" and mt = media_image and tf = tiny_folder and sd = "[]"
      and digest_of_both = "''cccc''" and ?s0.0 = after_first
      and items = "[([''unsorted_photos''], ''notes.txt'', quiet_env)]"]
    rec between hash mk rm rm0
  have later: "fst (place_file [] quiet_env after_between [''unsorted_photos'', ''locked'', ''b.jpg''] ''b.jpg''
          ''.jpg'' media_image (Some tiny_folder)) = None \<and>
   fs (snd (place_file [] quiet_env after_between [''unsorted_photos'', ''locked'', ''b.jpg''] ''b.jpg''
          ''.jpg'' media_image (Some tiny_folder)))
     = fmdrop [''unsorted_photos'', ''locked'', ''b.jpg''] (fs after_between) \<and>
   duplicate_deleted_count (snd (place_file [] quiet_env after_between
          [''unsorted_photos'', ''locked'', ''b.jpg''] ''b.jpg'' ''.jpg'' media_image (Some tiny_folder)))
     = duplicate_deleted_count after_between + 1"
    by simp
  from free mv tr moved hfree tried converted rec between hash mk rm0 later
  show ?thesis by blast
qed

text \<open>
  Two files with the same content and no date; the second cannot be removed. The first
  is moved; the second is found to be a duplicate, stays at its source and is counted
  as an error, not as a deleted duplicate.
\<close>

theorem later_duplicate_not_deleted_counterexample:
  "digest (the (fmlookup two_copies [''unsorted_photos'', ''a.jpg'']))
     = digest (the (fmlookup two_copies [''unsorted_photos'', ''locked'', ''b.jpg''])) \<and>
   fst (walk [] (initial_state two_copies)
          [([''unsorted_photos''], ''a.jpg'', quiet_env),
           ([''unsorted_photos'', ''locked''], ''b.jpg'', remove_denied_env)]) = None \<and>
   fmdom' (fs (snd (walk [] (initial_state two_copies)
          [([''unsorted_photos''], ''a.jpg'', quiet_env),
           ([''unsorted_photos'', ''locked''], ''b.jpg'', remove_denied_env)])))
     = {joinpath tiny_folder ''a.jpg'', [''unsorted_photos'', ''locked'', ''b.jpg'']} \<and>
   duplicate_deleted_count (snd (walk [] (initial_state two_copies)
          [([''unsorted_photos''], ''a.jpg'', quiet_env),
           ([''unsorted_photos'', ''locked''], ''b.jpg'', remove_denied_env)])) = 0 \<and>
   error_count (snd (walk [] (initial_state two_copies)
          [([''unsorted_photos''], ''a.jpg'', quiet_env),
           ([''unsorted_photos'', ''locked''], ''b.jpg'', remove_denied_env)])) = 1"
  by (auto simp: model_defs example_defs two_copies_def remove_denied_env_def tiny_folder_def)

end
